theory Spec2Isabelle
  imports Main
begin

section \<open>The IR consumed by the pass\<close>

text \<open>
  The pass of \<^verbatim>\<open>scalar_type_analysis.cpp\<close> works on the JIT graph IR, which is declared
  outside the file. The part of the IR the pass reads and writes is modelled here as an
  explicit store: a graph is the list of its nodes, a node is named by its index, and a
  value is named by its producer and its offset among the producer's outputs, so that
  every value has exactly one producer, as in the IR.
\<close>

text \<open>
  Modelled from the spec: the enumeration \<^verbatim>\<open>c10::ScalarType\<close> is declared outside the file.
  It covers the nine element types that have a wire-format code and further ones that
  have none (complex, quantised and bfloat16 types, and the undefined type).
\<close>

datatype ScalarType =
    kByte | kChar | kShort | kInt | kLong | kHalf | kFloat | kDouble
  | kComplexHalf | kComplexFloat | kComplexDouble | kBool
  | kQInt8 | kQUInt8 | kQInt32 | kBFloat16 | kUndefined

text \<open>
  Node kinds are interned symbols. The kinds the pass names are constructors of their
  own; \<open>OtherKind\<close> stands for every other symbol (\<^verbatim>\<open>prim::Param\<close>, \<^verbatim>\<open>onnx::Unsqueeze\<close>, ...).
\<close>

datatype NodeKind =
    onnx_Add | onnx_Sub | onnx_Mul | onnx_Div | onnx_Gemm | onnx_Pow | onnx_Mod
  | onnx_Greater | onnx_Less | onnx_Equal | onnx_GreaterOrEqual | onnx_LessOrEqual
  | onnx_Gather | onnx_Shape | onnx_Constant | onnx_Cast
  | OtherKind string

text \<open>
  A type annotation is a tensor type, with an optional element type and the rest of
  its description (here the optional sizes), or some other type, for which
  \<^verbatim>\<open>cast<TensorType>()\<close> yields the null pointer.
\<close>

datatype TypePtr =
    TensorType (scalarType: "ScalarType option") (sizes: "nat list option")
  | NonTensorType

text \<open>
  Modelled from the spec: a constant literal (\<^verbatim>\<open>at::Tensor\<close>) has a stored element type,
  sizes and data; the element-cast operation \<^verbatim>\<open>to\<close> is external. It yields a literal of the
  requested element type, the literal itself when it already has that type; how the data
  are converted is a parameter \<open>conv\<close> of the model.
\<close>

record Tensor =
  scalar_type :: ScalarType
  tensor_sizes :: "nat list"
  tensor_data :: "int list"

definition tensor_to ::
  "(ScalarType \<Rightarrow> ScalarType \<Rightarrow> int list \<Rightarrow> int list) \<Rightarrow> Tensor \<Rightarrow> ScalarType \<Rightarrow> Tensor" where
  "tensor_to conv val st =
     (if scalar_type val = st then val
      else val\<lparr>scalar_type := st, tensor_data := conv (scalar_type val) st (tensor_data val)\<rparr>)"

definition TensorType_create :: "Tensor \<Rightarrow> TypePtr" where
  "TensorType_create val = TensorType (Some (scalar_type val)) (Some (tensor_sizes val))"

datatype AttributeValue = TensorAttr Tensor | IntAttr int

type_synonym Value = "nat \<times> nat"

record Node =
  kind :: NodeKind
  inputs :: "Value list"
  outputs :: "TypePtr list"
  attributes :: "(string \<times> AttributeValue) list"

type_synonym Graph = "Node list"

text \<open>
  What makes the C++ fail, as values: the null pointer of \<^verbatim>\<open>cast<TensorType>()\<close>
  dereferenced, an absent (or not tensor-valued) attribute read by \<^verbatim>\<open>t(attr::value)\<close>,
  \<^verbatim>\<open>input(0)\<close> of a node without inputs, \<^verbatim>\<open>output()\<close> of a node that has not exactly one
  output. \<open>Dangling\<close> is the model's own: a node index or a value outside the store, which
  a pointer of the IR cannot be.
\<close>

datatype error =
    NullTensorType | MissingAttribute | InputOutOfRange | NotSingleOutput | Dangling

datatype warning =
    TypesMismatch NodeKind ScalarType
  | NotSupported ScalarType NodeKind

definition bindE :: "error + 'a \<Rightarrow> ('a \<Rightarrow> error + 'b) \<Rightarrow> error + 'b" where
  "bindE m f = (case m of Inl e \<Rightarrow> Inl e | Inr x \<Rightarrow> f x)"

definition node_at :: "Graph \<Rightarrow> nat \<Rightarrow> error + Node" where
  "node_at g n = (if n < length g then Inr (g ! n) else Inl Dangling)"

text \<open>\<^verbatim>\<open>v->node()\<close>: the producer of a value.\<close>

definition producer :: "Graph \<Rightarrow> Value \<Rightarrow> error + Node" where
  "producer g v =
     bindE (node_at g (fst v))
       (\<lambda>m. if snd v < length (outputs m) then Inr m else Inl Dangling)"

text \<open>\<^verbatim>\<open>v->type()\<close>.\<close>

definition value_type :: "Graph \<Rightarrow> Value \<Rightarrow> error + TypePtr" where
  "value_type g v = bindE (producer g v) (\<lambda>m. Inr (outputs m ! snd v))"

text \<open>\<^verbatim>\<open>v->type()->cast<TensorType>()->scalarType()\<close>, the cast dereferenced unguarded.\<close>

definition tensor_scalarType :: "TypePtr \<Rightarrow> error + ScalarType option" where
  "tensor_scalarType ty =
     (case ty of TensorType st sz \<Rightarrow> Inr st | NonTensorType \<Rightarrow> Inl NullTensorType)"

text \<open>\<^verbatim>\<open>n->t(attr::value)\<close>.\<close>

definition attr_t :: "Node \<Rightarrow> string \<Rightarrow> error + Tensor" where
  "attr_t m name =
     (case map_of (attributes m) name of
        Some (TensorAttr val) \<Rightarrow> Inr val
      | _ \<Rightarrow> Inl MissingAttribute)"

text \<open>\<^verbatim>\<open>n->input(0)\<close>.\<close>

definition input0 :: "Node \<Rightarrow> error + Value" where
  "input0 m = (case inputs m of [] \<Rightarrow> Inl InputOutOfRange | v # vs \<Rightarrow> Inr v)"

text \<open>\<^verbatim>\<open>n->output()\<close>, which asserts that the node has exactly one output.\<close>

definition output_type :: "Node \<Rightarrow> error + TypePtr" where
  "output_type m = (case outputs m of [ty] \<Rightarrow> Inr ty | _ \<Rightarrow> Inl NotSingleOutput)"

section \<open>TypeCodec\<close>

definition scalarTypeToONNXTypeMap :: "(ScalarType \<times> int) list" where
  "scalarTypeToONNXTypeMap =
     [(kFloat, 1), (kByte, 2), (kChar, 3), (kShort, 5), (kInt, 6),
      (kLong, 7), (kBool, 9), (kHalf, 10), (kDouble, 11)]"

definition ScalarTypeToONNXType :: "ScalarType \<Rightarrow> int" where
  "ScalarTypeToONNXType st =
     (case map_of scalarTypeToONNXTypeMap st of None \<Rightarrow> - 1 | Some c \<Rightarrow> c)"

section \<open>OpClassifier\<close>

definition standardOps :: "NodeKind list" where
  "standardOps = [onnx_Add, onnx_Sub, onnx_Mul, onnx_Div, onnx_Gemm, onnx_Pow, onnx_Mod]"

definition IsStandardOp :: "NodeKind \<Rightarrow> bool" where
  "IsStandardOp nkind = (nkind \<in> set standardOps)"

definition comparisonOps :: "NodeKind list" where
  "comparisonOps =
     [onnx_Greater, onnx_Less, onnx_Equal, onnx_GreaterOrEqual, onnx_LessOrEqual]"

definition IsComparisonOp :: "NodeKind \<Rightarrow> bool" where
  "IsComparisonOp nkind = (nkind \<in> set comparisonOps)"

definition IsImplicitCastSupported :: "NodeKind \<Rightarrow> bool" where
  "IsImplicitCastSupported nodeKind =
     (nodeKind \<in> set standardOps \<or> nodeKind \<in> set comparisonOps)"

section \<open>TypeInference\<close>

text \<open>
  The promotion of two element types (\<^verbatim>\<open>c10::promoteTypes\<close>) is external: it is the
  parameter \<open>promoteTypes\<close> of the functions that use it.
\<close>

fun PromoteScalarTypes ::
  "(ScalarType \<Rightarrow> ScalarType \<Rightarrow> ScalarType) \<Rightarrow> ScalarType list \<Rightarrow> ScalarType option" where
  "PromoteScalarTypes promoteTypes [] = None"
| "PromoteScalarTypes promoteTypes (st # types) = Some (foldl promoteTypes st types)"

text \<open>
  The body of the \<^verbatim>\<open>for_each\<close> over the inputs: the two buckets are threaded as a pair
  \<open>(typesFromTensors, typesFromScalars)\<close>.
\<close>

definition collect_input ::
  "Graph \<Rightarrow> ScalarType list \<times> ScalarType list \<Rightarrow> Value
     \<Rightarrow> error + (ScalarType list \<times> ScalarType list)" where
  "collect_input g acc input =
     bindE (producer g input) (\<lambda>m.
     bindE (if kind m = onnx_Gather
            then bindE (input0 m) (\<lambda>v0. bindE (producer g v0) (\<lambda>m0. Inr (kind m0 = onnx_Shape)))
            else Inr False) (\<lambda>shape_gather.
       if shape_gather then Inr (fst acc, snd acc @ [kLong])
       else if kind m = onnx_Constant then
         bindE (attr_t m ''value'') (\<lambda>val. Inr (fst acc, snd acc @ [scalar_type val]))
       else
         bindE (value_type g input) (\<lambda>ty.
         bindE (tensor_scalarType ty) (\<lambda>st.
           case st of
             Some st' \<Rightarrow> Inr (fst acc @ [st'], snd acc)
           | None \<Rightarrow> Inr acc))))"

fun collect_inputs ::
  "Graph \<Rightarrow> ScalarType list \<times> ScalarType list \<Rightarrow> Value list
     \<Rightarrow> error + (ScalarType list \<times> ScalarType list)" where
  "collect_inputs g acc [] = Inr acc"
| "collect_inputs g acc (input # rest) =
     bindE (collect_input g acc input) (\<lambda>acc'. collect_inputs g acc' rest)"

definition InferExpectedScalarType ::
  "(ScalarType \<Rightarrow> ScalarType \<Rightarrow> ScalarType) \<Rightarrow> Graph \<Rightarrow> nat
     \<Rightarrow> error + (ScalarType option \<times> warning list)" where
  "InferExpectedScalarType promoteTypes g n =
     bindE (node_at g n) (\<lambda>nd.
     bindE (collect_inputs g ([], []) (inputs nd)) (\<lambda>acc.
     bindE (output_type nd) (\<lambda>oty.
     bindE (tensor_scalarType oty) (\<lambda>output_st.
       let typesFromTensors = fst acc; typesFromScalars = snd acc in
       Inr (if IsComparisonOp (kind nd) then
              (PromoteScalarTypes promoteTypes (typesFromScalars @ typesFromTensors), [])
            else if length typesFromScalars = length (inputs nd) then
              (PromoteScalarTypes promoteTypes typesFromScalars, [])
            else if output_st \<noteq> None then
              (output_st, [])
            else if typesFromTensors \<noteq> [] then
              (Some (typesFromTensors ! 0),
               if list_ex (\<lambda>ty. ty \<noteq> typesFromTensors ! 0) typesFromTensors
               then [TypesMismatch (kind nd) (typesFromTensors ! 0)] else [])
            else
              (PromoteScalarTypes promoteTypes typesFromScalars, []))))))"

section \<open>Graph mutation\<close>

text \<open>
  \<^verbatim>\<open>Graph::create(kind)\<close> makes a node with no input, no attribute and one output, whose
  type is the tensor type without any information. The new node is the last of the store.
\<close>

definition create :: "Graph \<Rightarrow> NodeKind \<Rightarrow> Graph \<times> nat" where
  "create g k =
     (g @ [\<lparr>kind = k, inputs = [], outputs = [TensorType None None], attributes = []\<rparr>],
      length g)"

definition setAttr ::
  "string \<Rightarrow> AttributeValue \<Rightarrow> (string \<times> AttributeValue) list \<Rightarrow> (string \<times> AttributeValue) list" where
  "setAttr name v as =
     (if name \<in> fst ` set as
      then map (\<lambda>(k, x). if k = name then (k, v) else (k, x)) as
      else as @ [(name, v)])"

text \<open>\<^verbatim>\<open>n->t_(name, v)\<close> and \<^verbatim>\<open>n->i_(name, v)\<close>.\<close>

definition set_attribute :: "Graph \<Rightarrow> nat \<Rightarrow> string \<Rightarrow> AttributeValue \<Rightarrow> Graph" where
  "set_attribute g n name v = g[n := (g ! n)\<lparr>attributes := setAttr name v (attributes (g ! n))\<rparr>]"

definition addInput :: "Graph \<Rightarrow> nat \<Rightarrow> Value \<Rightarrow> Graph" where
  "addInput g n v = g[n := (g ! n)\<lparr>inputs := inputs (g ! n) @ [v]\<rparr>]"

text \<open>\<^verbatim>\<open>v->setType(ty)\<close>.\<close>

definition setType :: "Graph \<Rightarrow> Value \<Rightarrow> TypePtr \<Rightarrow> Graph" where
  "setType g v ty =
     g[fst v := (g ! fst v)\<lparr>outputs := (outputs (g ! fst v))[snd v := ty]\<rparr>]"

text \<open>\<^verbatim>\<open>n->replaceInputWith(from, to)\<close> replaces every occurrence of \<open>from\<close> among the inputs.\<close>

definition replaceInputWith :: "Graph \<Rightarrow> nat \<Rightarrow> Value \<Rightarrow> Value \<Rightarrow> Graph" where
  "replaceInputWith g n from to =
     g[n := (g ! n)\<lparr>inputs := map (\<lambda>v. if v = from then to else v) (inputs (g ! n))\<rparr>]"

definition CreateProfiledTensorTypeWithScalarType :: "TypePtr \<Rightarrow> ScalarType \<Rightarrow> error + TypePtr" where
  "CreateProfiledTensorTypeWithScalarType typePtr st =
     (case typePtr of
        TensorType old sz \<Rightarrow> Inr (TensorType (Some st) sz)
      | NonTensorType \<Rightarrow> Inl NullTensorType)"

section \<open>InputRewriter\<close>

text \<open>
  The body of the loop over the inputs of \<open>n\<close>, at position \<open>i\<close>. The loop reads the
  input list in place, so it sees the edges that earlier iterations have rewired. The
  state is the store and the nodes inserted before \<open>n\<close> so far, in their order in the block
  (\<^verbatim>\<open>insertBefore(n)\<close> puts a node directly before \<open>n\<close>, after those inserted earlier).
\<close>

definition update_input ::
  "(ScalarType \<Rightarrow> ScalarType \<Rightarrow> int list \<Rightarrow> int list) \<Rightarrow> int \<Rightarrow> ScalarType \<Rightarrow> nat
     \<Rightarrow> Graph \<times> nat list \<Rightarrow> nat \<Rightarrow> error + (Graph \<times> nat list)" where
  "update_input conv onnx_type st n s i =
     (let g = fst s; ins = snd s in
      bindE (node_at g n) (\<lambda>nd.
      let input = inputs nd ! i in
      bindE (value_type g input) (\<lambda>input_tensor_type.
      bindE (tensor_scalarType input_tensor_type) (\<lambda>input_scalar_type.
      bindE (producer g input) (\<lambda>m.
        if kind m = onnx_Constant \<or> (input_scalar_type \<noteq> None \<and> input_scalar_type \<noteq> Some st) then
          if kind m = onnx_Constant then
            bindE (attr_t m ''value'') (\<lambda>val.
              let new_val = tensor_to conv val st;
                  g1 = fst (create g onnx_Constant);
                  const_node = snd (create g onnx_Constant);
                  g2 = set_attribute g1 const_node ''value'' (TensorAttr new_val);
                  g3 = setType g2 (const_node, 0) (TensorType_create new_val);
                  g4 = replaceInputWith g3 n input (const_node, 0)
              in Inr (g4, ins @ [const_node]))
          else
            bindE (CreateProfiledTensorTypeWithScalarType input_tensor_type st) (\<lambda>cast_type.
              let g1 = fst (create g onnx_Cast);
                  cast_node = snd (create g onnx_Cast);
                  g2 = addInput g1 cast_node input;
                  g3 = set_attribute g2 cast_node ''to'' (IntAttr onnx_type);
                  g4 = setType g3 (cast_node, 0) cast_type;
                  g5 = replaceInputWith g4 n input (cast_node, 0)
              in Inr (g5, ins @ [cast_node]))
        else Inr (g, ins))))))"

fun update_inputs ::
  "(ScalarType \<Rightarrow> ScalarType \<Rightarrow> int list \<Rightarrow> int list) \<Rightarrow> int \<Rightarrow> ScalarType \<Rightarrow> nat
     \<Rightarrow> Graph \<times> nat list \<Rightarrow> nat list \<Rightarrow> error + (Graph \<times> nat list)" where
  "update_inputs conv onnx_type st n s [] = Inr s"
| "update_inputs conv onnx_type st n s (i # rest) =
     bindE (update_input conv onnx_type st n s i)
       (\<lambda>s'. update_inputs conv onnx_type st n s' rest)"

text \<open>
  The result is the new store, the nodes inserted before \<open>n\<close> (in block order) and the
  warnings written.
\<close>

definition UpdateScalarTypeForInputs ::
  "(ScalarType \<Rightarrow> ScalarType \<Rightarrow> int list \<Rightarrow> int list) \<Rightarrow> Graph \<Rightarrow> nat \<Rightarrow> ScalarType
     \<Rightarrow> error + (Graph \<times> nat list \<times> warning list)" where
  "UpdateScalarTypeForInputs conv g n st =
     (let onnx_type = ScalarTypeToONNXType st in
      bindE (node_at g n) (\<lambda>nd.
        if onnx_type < 0 then Inr (g, [], [NotSupported st (kind nd)])
        else
          bindE (update_inputs conv onnx_type st n (g, []) [0..<length (inputs nd)])
            (\<lambda>s. Inr (fst s, snd s, []))))"

section \<open>OutputRewriter\<close>

definition UpdateScalarTypeForOutput :: "Graph \<Rightarrow> nat \<Rightarrow> ScalarType \<Rightarrow> error + Graph" where
  "UpdateScalarTypeForOutput g n st =
     bindE (node_at g n) (\<lambda>nd.
     bindE (output_type nd) (\<lambda>output_tensor_type.
     bindE (CreateProfiledTensorTypeWithScalarType output_tensor_type st) (\<lambda>ty.
       Inr (setType g (n, 0) ty))))"

section \<open>PassDriver\<close>

text \<open>
  The block structure is a tree: a block is the list of its nodes in order, each with
  its child blocks. The contents of the nodes are in the store.
\<close>

datatype BlockNode = BlockNode (node_id: nat) (blocks: "BlockNode list list")

type_synonym Block = "BlockNode list"

text \<open>
  The state of the pass: the store, the warnings written so far, and \<open>inferred\<close>, a
  history of the concrete types that inference yielded, each with the node it was
  inferred for. The source holds that type in the local variable
  \<^verbatim>\<open>expected_scalar_type\<close>; the history is written and never read.
\<close>

record PassState =
  graph :: Graph
  warnings :: "warning list"
  inferred :: "(nat \<times> ScalarType) list"

text \<open>
  The body of the loop over the nodes of a block, for the node \<open>n\<close>: the result is the
  list of the nodes inserted before \<open>n\<close> and the new state.
\<close>

definition visit ::
  "(ScalarType \<Rightarrow> ScalarType \<Rightarrow> ScalarType) \<Rightarrow> (ScalarType \<Rightarrow> ScalarType \<Rightarrow> int list \<Rightarrow> int list)
     \<Rightarrow> PassState \<Rightarrow> nat \<Rightarrow> error + (nat list \<times> PassState)" where
  "visit promoteTypes conv s n =
     bindE (node_at (graph s) n) (\<lambda>nd.
       if IsImplicitCastSupported (kind nd) then
         bindE (InferExpectedScalarType promoteTypes (graph s) n) (\<lambda>(expected_scalar_type, w1).
           case expected_scalar_type of
             None \<Rightarrow> Inr ([], s\<lparr>warnings := warnings s @ w1\<rparr>)
           | Some st \<Rightarrow>
               bindE (UpdateScalarTypeForInputs conv (graph s) n st) (\<lambda>(g1, ins, w2).
               bindE (if \<not> IsComparisonOp (kind nd)
                      then UpdateScalarTypeForOutput g1 n st else Inr g1) (\<lambda>g2.
                 Inr (ins, \<lparr>graph = g2, warnings = warnings s @ w1 @ w2,
                            inferred = inferred s @ [(n, st)]\<rparr>))))
       else Inr ([], s))"

text \<open>
  The dead code elimination that ends the work on a block is external: it is the
  parameter \<open>dce\<close>, which gets the store and the block and yields the block it leaves.
  Nodes inserted before the current node are not visited: the iterator stands on the
  current node and moves on to its successor.
\<close>

fun ImplicitCastForONNX ::
  "(ScalarType \<Rightarrow> ScalarType \<Rightarrow> ScalarType) \<Rightarrow> (ScalarType \<Rightarrow> ScalarType \<Rightarrow> int list \<Rightarrow> int list)
     \<Rightarrow> (Graph \<Rightarrow> Block \<Rightarrow> Block) \<Rightarrow> Block \<Rightarrow> PassState \<Rightarrow> error + (Block \<times> PassState)"
and visit_nodes ::
  "(ScalarType \<Rightarrow> ScalarType \<Rightarrow> ScalarType) \<Rightarrow> (ScalarType \<Rightarrow> ScalarType \<Rightarrow> int list \<Rightarrow> int list)
     \<Rightarrow> (Graph \<Rightarrow> Block \<Rightarrow> Block) \<Rightarrow> Block \<Rightarrow> PassState \<Rightarrow> error + (Block \<times> PassState)"
and visit_blocks ::
  "(ScalarType \<Rightarrow> ScalarType \<Rightarrow> ScalarType) \<Rightarrow> (ScalarType \<Rightarrow> ScalarType \<Rightarrow> int list \<Rightarrow> int list)
     \<Rightarrow> (Graph \<Rightarrow> Block \<Rightarrow> Block) \<Rightarrow> Block list \<Rightarrow> PassState
     \<Rightarrow> error + (Block list \<times> PassState)" where
  "ImplicitCastForONNX promoteTypes conv dce block s =
     bindE (visit_nodes promoteTypes conv dce block s)
       (\<lambda>(block', s'). Inr (dce (graph s') block', s'))"
| "visit_nodes promoteTypes conv dce [] s = Inr ([], s)"
| "visit_nodes promoteTypes conv dce (BlockNode n subs # rest) s =
     bindE (visit_blocks promoteTypes conv dce subs s) (\<lambda>(subs', s1).
     bindE (visit promoteTypes conv s1 n) (\<lambda>(ins, s2).
     bindE (visit_nodes promoteTypes conv dce rest s2) (\<lambda>(rest', s3).
       Inr (map (\<lambda>i. BlockNode i []) ins @ BlockNode n subs' # rest', s3))))"
| "visit_blocks promoteTypes conv dce [] s = Inr ([], s)"
| "visit_blocks promoteTypes conv dce (sub # subs) s =
     bindE (ImplicitCastForONNX promoteTypes conv dce sub s) (\<lambda>(sub', s1).
     bindE (visit_blocks promoteTypes conv dce subs s1) (\<lambda>(subs', s2).
       Inr (sub' # subs', s2)))"

text \<open>The entry point: the pass on the top-level block of a graph.\<close>

definition ScalarTypeAnalysisForONNX ::
  "(ScalarType \<Rightarrow> ScalarType \<Rightarrow> ScalarType) \<Rightarrow> (ScalarType \<Rightarrow> ScalarType \<Rightarrow> int list \<Rightarrow> int list)
     \<Rightarrow> (Graph \<Rightarrow> Block \<Rightarrow> Block) \<Rightarrow> Block \<Rightarrow> Graph \<Rightarrow> error + (Block \<times> PassState)" where
  "ScalarTypeAnalysisForONNX promoteTypes conv dce block g =
     ImplicitCastForONNX promoteTypes conv dce block \<lparr>graph = g, warnings = [], inferred = []\<rparr>"

section \<open>The inference rule in the words of the specification\<close>

text \<open>
  The classification of an input by the shape of its producer, and the two buckets as
  the lists of the contributions of the inputs, in their order. These definitions follow
  the specification; the theorems below compare them with the code.
\<close>

definition is_shape_gather :: "Graph \<Rightarrow> Value \<Rightarrow> bool" where
  "is_shape_gather g v =
     (case producer g v of
        Inr m \<Rightarrow> kind m = onnx_Gather \<and>
          (case input0 m of
             Inr v0 \<Rightarrow> (case producer g v0 of Inr m0 \<Rightarrow> kind m0 = onnx_Shape | Inl e \<Rightarrow> False)
           | Inl e \<Rightarrow> False)
      | Inl e \<Rightarrow> False)"

definition is_constant :: "Graph \<Rightarrow> Value \<Rightarrow> bool" where
  "is_constant g v = (case producer g v of Inr m \<Rightarrow> kind m = onnx_Constant | Inl e \<Rightarrow> False)"

definition classified_scalar :: "Graph \<Rightarrow> Value \<Rightarrow> bool" where
  "classified_scalar g v = (is_shape_gather g v \<or> is_constant g v)"

definition annotated :: "Graph \<Rightarrow> Value \<Rightarrow> ScalarType option" where
  "annotated g v = (case value_type g v of Inr (TensorType st sz) \<Rightarrow> st | _ \<Rightarrow> None)"

definition literal_type :: "Graph \<Rightarrow> Value \<Rightarrow> ScalarType option" where
  "literal_type g v =
     (case producer g v of
        Inr m \<Rightarrow> (case attr_t m ''value'' of Inr val \<Rightarrow> Some (scalar_type val) | Inl e \<Rightarrow> None)
      | Inl e \<Rightarrow> None)"

definition scalar_contribution :: "Graph \<Rightarrow> Value \<Rightarrow> ScalarType list" where
  "scalar_contribution g v =
     (if is_shape_gather g v then [kLong]
      else if is_constant g v then (case literal_type g v of Some st \<Rightarrow> [st] | None \<Rightarrow> [])
      else [])"

definition tensor_contribution :: "Graph \<Rightarrow> Value \<Rightarrow> ScalarType list" where
  "tensor_contribution g v =
     (if classified_scalar g v then []
      else (case annotated g v of Some st \<Rightarrow> [st] | None \<Rightarrow> []))"

definition typesFromScalars :: "Graph \<Rightarrow> Value list \<Rightarrow> ScalarType list" where
  "typesFromScalars g vs = concat (map (scalar_contribution g) vs)"

definition typesFromTensors :: "Graph \<Rightarrow> Value list \<Rightarrow> ScalarType list" where
  "typesFromTensors g vs = concat (map (tensor_contribution g) vs)"

definition infer_rule ::
  "(ScalarType \<Rightarrow> ScalarType \<Rightarrow> ScalarType) \<Rightarrow> Graph \<Rightarrow> Node \<Rightarrow> ScalarType option \<Rightarrow> ScalarType option \<times> warning list" where
  "infer_rule promoteTypes g nd outputType =
     (let scalars = typesFromScalars g (inputs nd); tensors = typesFromTensors g (inputs nd) in
      if IsComparisonOp (kind nd) then (PromoteScalarTypes promoteTypes (scalars @ tensors), [])
      else if \<forall>v \<in> set (inputs nd). classified_scalar g v then (PromoteScalarTypes promoteTypes scalars, [])
      else if outputType \<noteq> None then (outputType, [])
      else if tensors \<noteq> [] then
        (Some (hd tensors),
         if \<exists>ty \<in> set (tl tensors). ty \<noteq> hd tensors then [TypesMismatch (kind nd) (hd tensors)] else [])
      else (PromoteScalarTypes promoteTypes scalars, []))"

section \<open>Example data\<close>

text \<open>
  A promotion of element types for the examples: the types are ranked, and the
  promotion of two types is the one of higher rank.
\<close>

definition rank :: "ScalarType \<Rightarrow> nat" where
  "rank st =
     (case st of kBool \<Rightarrow> 0 | kByte \<Rightarrow> 1 | kChar \<Rightarrow> 2 | kShort \<Rightarrow> 3 | kInt \<Rightarrow> 4
      | kLong \<Rightarrow> 5 | kHalf \<Rightarrow> 6 | kBFloat16 \<Rightarrow> 7 | kFloat \<Rightarrow> 8 | kDouble \<Rightarrow> 9
      | kComplexHalf \<Rightarrow> 10 | kComplexFloat \<Rightarrow> 11 | kComplexDouble \<Rightarrow> 12
      | kQInt8 \<Rightarrow> 13 | kQUInt8 \<Rightarrow> 14 | kQInt32 \<Rightarrow> 15 | kUndefined \<Rightarrow> 16)"

definition promote_rank :: "ScalarType \<Rightarrow> ScalarType \<Rightarrow> ScalarType" where
  "promote_rank a b = (if rank a < rank b then b else a)"

definition conv_keep :: "ScalarType \<Rightarrow> ScalarType \<Rightarrow> int list \<Rightarrow> int list" where
  "conv_keep a b d = d"

definition mk_node ::
  "NodeKind \<Rightarrow> Value list \<Rightarrow> TypePtr list \<Rightarrow> (string \<times> AttributeValue) list \<Rightarrow> Node" where
  "mk_node k vs tys as = \<lparr>kind = k, inputs = vs, outputs = tys, attributes = as\<rparr>"

definition literal :: "ScalarType \<Rightarrow> int \<Rightarrow> Tensor" where
  "literal st x = \<lparr>scalar_type = st, tensor_sizes = [], tensor_data = [x]\<rparr>"

text \<open>
  A graph with the parameters \<open>x\<close> (Float), \<open>y\<close> (Int) and \<open>u\<close> (no element type), the
  constant 3 (Int), the dimension \<open>Gather(Shape(x), 3)\<close> annotated as Float, the same behind
  an \<open>Unsqueeze\<close>, and the operators \<open>Add(x, y)\<close>, \<open>Mul(Add, 3)\<close>, \<open>Greater(Mul, 3, y, y)\<close>,
  \<open>Sub(u, x)\<close> and \<open>Add(Gather, Unsqueeze)\<close>.
\<close>

definition example_graph :: Graph where
  "example_graph =
     [mk_node (OtherKind ''prim::Param'') []
        [TensorType (Some kFloat) None, TensorType (Some kInt) None, TensorType None None] [],
      mk_node onnx_Constant [] [TensorType (Some kInt) (Some [])]
        [(''value'', TensorAttr (literal kInt 3))],
      mk_node onnx_Shape [(0, 0)] [TensorType (Some kLong) None] [],
      mk_node onnx_Gather [(2, 0), (1, 0)] [TensorType (Some kFloat) None] [],
      mk_node (OtherKind ''onnx::Unsqueeze'') [(3, 0)] [TensorType (Some kLong) None] [],
      mk_node onnx_Add [(0, 0), (0, 1)] [TensorType None None] [],
      mk_node onnx_Mul [(5, 0), (1, 0)] [TensorType None None] [],
      mk_node onnx_Greater [(6, 0), (1, 0), (0, 1), (0, 1)] [TensorType (Some kBool) None] [],
      mk_node onnx_Sub [(0, 2), (0, 0)] [TensorType None None] [],
      mk_node onnx_Add [(3, 0), (4, 0)] [TensorType None None] []]"

definition example_block :: Block where
  "example_block = map (\<lambda>n. BlockNode n []) [1, 2, 3, 4, 5, 6, 7, 8, 9]"

text \<open>
  A graph with the parameter \<open>x\<close> (Float), the constants 3 (Int) and 2 (Float), the
  dimension \<open>Gather(Shape(x), 3)\<close>, and \<open>Add(3, Gather, 2)\<close>, whose output is annotated as Int.
\<close>

definition scalars_graph :: Graph where
  "scalars_graph =
     [mk_node (OtherKind ''prim::Param'') [] [TensorType (Some kFloat) None] [],
      mk_node onnx_Constant [] [TensorType (Some kInt) (Some [])]
        [(''value'', TensorAttr (literal kInt 3))],
      mk_node onnx_Shape [(0, 0)] [TensorType (Some kLong) None] [],
      mk_node onnx_Gather [(2, 0), (1, 0)] [TensorType (Some kLong) None] [],
      mk_node onnx_Constant [] [TensorType (Some kFloat) (Some [])]
        [(''value'', TensorAttr (literal kFloat 2))],
      mk_node onnx_Add [(1, 0), (3, 0), (4, 0)] [TensorType (Some kInt) None] []]"

text \<open>
  The graph of \<open>Less(x, 3, z)\<close>, with \<open>x\<close> a Float tensor, the constant an Int and \<open>z\<close> a
  Double tensor.
\<close>

definition less_graph :: Graph where
  "less_graph =
     [mk_node (OtherKind ''prim::Param'') []
        [TensorType (Some kFloat) None, TensorType (Some kDouble) None] [],
      mk_node onnx_Constant [] [TensorType (Some kInt) (Some [])]
        [(''value'', TensorAttr (literal kInt 3))],
      mk_node onnx_Less [(0, 0), (1, 0), (0, 1)] [TensorType (Some kBool) None] []]"

text \<open>The graph of \<open>Greater(x, y)\<close>, with \<open>x\<close> and \<open>y\<close> BFloat16 tensors.\<close>

definition bfloat_greater_graph :: Graph where
  "bfloat_greater_graph =
     [mk_node (OtherKind ''prim::Param'') []
        [TensorType (Some kBFloat16) None, TensorType (Some kBFloat16) None] [],
      mk_node onnx_Greater [(0, 0), (0, 1)] [TensorType (Some kBool) None] []]"

section \<open>The rewritten inputs\<close>

text \<open>
  The vocabulary of the invariant of the loop over the inputs: the nodes the rewriter
  makes, what an input has become with respect to the original one, what the store
  keeps, and the invariant itself.
\<close>

definition Constant_node :: "Tensor \<Rightarrow> Node" where
  "Constant_node val =
     \<lparr>kind = onnx_Constant, inputs = [], outputs = [TensorType_create val],
      attributes = [(''value'', TensorAttr val)]\<rparr>"

definition Cast_node :: "Value \<Rightarrow> int \<Rightarrow> TypePtr \<Rightarrow> Node" where
  "Cast_node v code ty =
     \<lparr>kind = onnx_Cast, inputs = [v], outputs = [ty], attributes = [(''to'', IntAttr code)]\<rparr>"

definition rewritten_Constant ::
  "(ScalarType \<Rightarrow> ScalarType \<Rightarrow> int list \<Rightarrow> int list) \<Rightarrow> ScalarType \<Rightarrow> Graph \<Rightarrow> Graph \<Rightarrow> Value \<Rightarrow> Value \<Rightarrow> bool" where
  "rewritten_Constant conv T g0 g v0 v \<longleftrightarrow>
     (\<exists>m val. producer g0 v0 = Inr m \<and> kind m = onnx_Constant \<and> attr_t m ''value'' = Inr val
        \<and> length g0 \<le> fst v \<and> fst v < length g \<and> snd v = 0
        \<and> g ! fst v = Constant_node (tensor_to conv val T))"

definition rewritten_Cast :: "int \<Rightarrow> ScalarType \<Rightarrow> Graph \<Rightarrow> Graph \<Rightarrow> Value \<Rightarrow> Value \<Rightarrow> bool" where
  "rewritten_Cast code T g0 g v0 v \<longleftrightarrow>
     (\<exists>m st sz. producer g0 v0 = Inr m \<and> kind m \<noteq> onnx_Constant
        \<and> value_type g0 v0 = Inr (TensorType (Some st) sz) \<and> st \<noteq> T
        \<and> length g0 \<le> fst v \<and> fst v < length g \<and> snd v = 0
        \<and> g ! fst v = Cast_node v0 code (TensorType (Some T) sz))"

definition kept :: "ScalarType \<Rightarrow> Graph \<Rightarrow> Value \<Rightarrow> Value \<Rightarrow> bool" where
  "kept T g0 v0 v \<longleftrightarrow>
     v = v0 \<and> (\<exists>m st sz. producer g0 v0 = Inr m \<and> kind m \<noteq> onnx_Constant
        \<and> value_type g0 v0 = Inr (TensorType st sz) \<and> (st = None \<or> st = Some T))"

definition outside :: "Graph \<Rightarrow> Value \<Rightarrow> Value \<Rightarrow> bool" where
  "outside g0 v0 v \<longleftrightarrow> length g0 \<le> fst v0 \<and> length g0 \<le> fst v"

definition input_done ::
  "(ScalarType \<Rightarrow> ScalarType \<Rightarrow> int list \<Rightarrow> int list) \<Rightarrow> int \<Rightarrow> ScalarType \<Rightarrow> Graph \<Rightarrow> Graph \<Rightarrow> Value \<Rightarrow> Value \<Rightarrow> bool" where
  "input_done conv code T g0 g v0 v \<longleftrightarrow>
     rewritten_Constant conv T g0 g v0 v \<or> rewritten_Cast code T g0 g v0 v
     \<or> kept T g0 v0 v \<or> outside g0 v0 v"

definition input_pending ::
  "(ScalarType \<Rightarrow> ScalarType \<Rightarrow> int list \<Rightarrow> int list) \<Rightarrow> int \<Rightarrow> ScalarType \<Rightarrow> Graph \<Rightarrow> Graph \<Rightarrow> Value \<Rightarrow> Value \<Rightarrow> bool" where
  "input_pending conv code T g0 g v0 v \<longleftrightarrow>
     input_done conv code T g0 g v0 v \<or> (v = v0 \<and> fst v0 < length g0)"

definition fresh_nodes :: "int \<Rightarrow> ScalarType \<Rightarrow> Graph \<Rightarrow> Graph \<Rightarrow> bool" where
  "fresh_nodes code T g0 g \<longleftrightarrow>
     (\<forall>j. length g0 \<le> j \<and> j < length g \<longrightarrow>
        (\<exists>val. g ! j = Constant_node val \<and> scalar_type val = T)
        \<or> (\<exists>src sz. g ! j = Cast_node src code (TensorType (Some T) sz)))"

definition store_kept :: "Graph \<Rightarrow> nat \<Rightarrow> Graph \<Rightarrow> bool" where
  "store_kept g0 n g \<longleftrightarrow>
     length g0 \<le> length g
     \<and> (\<forall>j < length g0. j \<noteq> n \<longrightarrow> g ! j = g0 ! j)
     \<and> g ! n = (g0 ! n)\<lparr>inputs := inputs (g ! n)\<rparr>
     \<and> length (inputs (g ! n)) = length (inputs (g0 ! n))"

definition loop_inv ::
  "(ScalarType \<Rightarrow> ScalarType \<Rightarrow> int list \<Rightarrow> int list) \<Rightarrow> int \<Rightarrow> ScalarType \<Rightarrow> Graph \<Rightarrow> nat \<Rightarrow> nat
     \<Rightarrow> Graph \<times> nat list \<Rightarrow> bool" where
  "loop_inv conv code T g0 n k s \<longleftrightarrow>
     store_kept g0 n (fst s) \<and> fresh_nodes code T g0 (fst s)
     \<and> snd s = [length g0..<length (fst s)]
     \<and> (\<forall>i < length (inputs (g0 ! n)).
           (i < k \<longrightarrow> input_done conv code T g0 (fst s) (inputs (g0 ! n) ! i) (inputs (fst s ! n) ! i))
           \<and> (k \<le> i \<longrightarrow> input_pending conv code T g0 (fst s) (inputs (g0 ! n) ! i) (inputs (fst s ! n) ! i)))"

text \<open>The facts about the inputs survive a step that only appends and rewires n.\<close>

definition extends :: "nat \<Rightarrow> Graph \<Rightarrow> Graph \<Rightarrow> bool" where
  "extends L g g' \<longleftrightarrow> length g \<le> length g' \<and> (\<forall>j. L \<le> j \<and> j < length g \<longrightarrow> g' ! j = g ! j)"

text \<open>The graph of \<open>Add(x, y)\<close>, with \<open>x\<close> a BFloat16 tensor and \<open>y\<close> a Float tensor.\<close>

definition bfloat_graph :: Graph where
  "bfloat_graph =
     [mk_node (OtherKind ''prim::Param'') []
        [TensorType (Some kBFloat16) None, TensorType (Some kFloat) None] [],
      mk_node onnx_Add [(0, 0), (0, 1)] [TensorType None None] []]"

section \<open>The pass as a sequence of visits\<close>

text \<open>
  The nodes in the order in which the driver visits them, the child blocks of a node
  before the node; the visits in that order; and the state that a run of the driver
  returns.
\<close>

fun visit_order :: "Block \<Rightarrow> nat list"
and visit_order_blocks :: "Block list \<Rightarrow> nat list" where
  "visit_order [] = []"
| "visit_order (BlockNode n subs # rest) = visit_order_blocks subs @ n # visit_order rest"
| "visit_order_blocks [] = []"
| "visit_order_blocks (sub # subs) = visit_order sub @ visit_order_blocks subs"

fun visit_all ::
  "(ScalarType \<Rightarrow> ScalarType \<Rightarrow> ScalarType) \<Rightarrow> (ScalarType \<Rightarrow> ScalarType \<Rightarrow> int list \<Rightarrow> int list)
     \<Rightarrow> nat list \<Rightarrow> PassState \<Rightarrow> error + PassState" where
  "visit_all promoteTypes conv [] s = Inr s"
| "visit_all promoteTypes conv (n # ns) s =
     bindE (visit promoteTypes conv s n) (\<lambda>r. visit_all promoteTypes conv ns (snd r))"

definition state_of :: "error + ('a \<times> PassState) \<Rightarrow> error + PassState" where
  "state_of r = bindE r (\<lambda>x. Inr (snd x))"

text \<open>
  A later graph has the nodes of the earlier one, with their kinds, and with their outputs
  when they are not STANDARD nodes.
\<close>

definition kept_outputs :: "Graph \<Rightarrow> Graph \<Rightarrow> bool" where
  "kept_outputs g g' \<longleftrightarrow>
     length g \<le> length g'
     \<and> (\<forall>j < length g. kind (g' ! j) = kind (g ! j)
          \<and> (\<not> IsStandardOp (kind (g ! j)) \<longrightarrow> outputs (g' ! j) = outputs (g ! j)))"

text \<open>
  Modelled from the spec: the dead code elimination is external; it removes the nodes
  whose outputs are unused. This one, for the examples, sweeps the block from its end
  and removes a node when it is not among the producers \<open>live\<close> of the results of the
  graph and no node that stays after it in the block, nor a node of their child blocks,
  has an input that it produces.
\<close>

definition used_by :: "Graph \<Rightarrow> nat list \<Rightarrow> nat list" where
  "used_by g ns = concat (map (\<lambda>n. map fst (inputs (g ! n))) ns)"

fun sweep :: "nat list \<Rightarrow> Graph \<Rightarrow> Block \<Rightarrow> Block" where
  "sweep live g [] = []"
| "sweep live g (b # bs) =
     (let bs' = sweep live g bs in
      if node_id b \<in> set live \<or> node_id b \<in> set (used_by g (visit_order bs'))
      then b # bs' else bs')"

text \<open>The graph of \<open>Greater(x, 1.5)\<close>, with \<open>x\<close> a Float tensor and the constant a Double.\<close>

definition greater_graph :: Graph where
  "greater_graph =
     [mk_node (OtherKind ''prim::Param'') [] [TensorType (Some kFloat) None] [],
      mk_node onnx_Constant [] [TensorType (Some kDouble) (Some [])]
        [(''value'', TensorAttr (literal kDouble 15))],
      mk_node onnx_Greater [(0, 0), (1, 0)] [TensorType (Some kBool) None] []]"

section \<open>The precondition of the pass\<close>

definition is_tensor :: "TypePtr \<Rightarrow> bool" where
  "is_tensor ty = (case ty of TensorType st sz \<Rightarrow> True | NonTensorType \<Rightarrow> False)"

text \<open>
  The input is a value of the graph that carries a TensorType annotation, and its
  producer, when it is a constant, has a tensor-valued attribute \<open>value\<close>.
\<close>

definition tensor_input :: "Graph \<Rightarrow> Value \<Rightarrow> bool" where
  "tensor_input g v =
     (case producer g v of
        Inl e \<Rightarrow> False
      | Inr m \<Rightarrow> is_tensor (outputs m ! snd v)
          \<and> (kind m = onnx_Constant \<longrightarrow> (case attr_t m ''value'' of Inr val \<Rightarrow> True | Inl e \<Rightarrow> False)))"

text \<open>The producer of the input, when it is a Gather, has a first operand, a value of the graph.\<close>

definition gather_input :: "Graph \<Rightarrow> Value \<Rightarrow> bool" where
  "gather_input g v =
     (case producer g v of
        Inl e \<Rightarrow> False
      | Inr m \<Rightarrow> kind m = onnx_Gather \<longrightarrow>
          (case input0 m of
             Inl e \<Rightarrow> False
           | Inr v0 \<Rightarrow> (case producer g v0 of Inr m0 \<Rightarrow> True | Inl e \<Rightarrow> False)))"

definition single_tensor_output :: "Node \<Rightarrow> bool" where
  "single_tensor_output nd = (case outputs nd of [ty] \<Rightarrow> is_tensor ty | _ \<Rightarrow> False)"

text \<open>The precondition as the claim states it, for the nodes \<open>ns\<close> that the pass visits.\<close>

definition claimed_precondition :: "Graph \<Rightarrow> nat list \<Rightarrow> bool" where
  "claimed_precondition g ns \<longleftrightarrow>
     (\<forall>n \<in> set ns. n < length g \<and>
        (IsImplicitCastSupported (kind (g ! n)) \<longrightarrow>
           single_tensor_output (g ! n) \<and> (\<forall>v \<in> set (inputs (g ! n)). tensor_input g v)))"

text \<open>The precondition under which the pass is total.\<close>

definition precondition :: "Graph \<Rightarrow> nat list \<Rightarrow> bool" where
  "precondition g ns \<longleftrightarrow>
     (\<forall>n \<in> set ns. n < length g \<and>
        (IsImplicitCastSupported (kind (g ! n)) \<longrightarrow>
           single_tensor_output (g ! n)
           \<and> (\<forall>v \<in> set (inputs (g ! n)). tensor_input g v \<and> gather_input g v)))"

text \<open>A graph in which a Gather without operands feeds an Add.\<close>

definition gather0_graph :: Graph where
  "gather0_graph =
     [mk_node (OtherKind ''prim::Param'') [] [TensorType (Some kFloat) None] [],
      mk_node onnx_Gather [] [TensorType (Some kLong) None] [],
      mk_node onnx_Add [(1, 0), (0, 0)] [TensorType None None] []]"

text \<open>
  What a visit of the node \<open>n\<close> keeps of the nodes of the graph: the kind, the attributes,
  the number of outputs and that an output is annotated with a TensorType, and the inputs
  of every node but \<open>n\<close>.
\<close>

definition grows :: "nat \<Rightarrow> Graph \<Rightarrow> Graph \<Rightarrow> bool" where
  "grows n g g' \<longleftrightarrow>
     length g \<le> length g'
     \<and> (\<forall>j < length g.
          kind (g' ! j) = kind (g ! j) \<and> attributes (g' ! j) = attributes (g ! j)
          \<and> length (outputs (g' ! j)) = length (outputs (g ! j))
          \<and> (\<forall>k < length (outputs (g ! j)).
                is_tensor (outputs (g ! j) ! k) \<longrightarrow> is_tensor (outputs (g' ! j) ! k))
          \<and> (j \<noteq> n \<longrightarrow> inputs (g' ! j) = inputs (g ! j)))"

text \<open>The precondition for one node.\<close>

definition node_ok :: "Graph \<Rightarrow> nat \<Rightarrow> bool" where
  "node_ok g n \<longleftrightarrow>
     n < length g \<and>
     (IsImplicitCastSupported (kind (g ! n)) \<longrightarrow>
        single_tensor_output (g ! n)
        \<and> (\<forall>v \<in> set (inputs (g ! n)). tensor_input g v \<and> gather_input g v))"

text \<open>An Add with an input that has no TensorType annotation, and a Mul with a constant without literal.\<close>

definition untyped_graph :: Graph where
  "untyped_graph =
     [mk_node (OtherKind ''prim::Param'') [] [TensorType (Some kFloat) None, NonTensorType] [],
      mk_node onnx_Add [(0, 0), (0, 1)] [TensorType None None] []]"

definition no_literal_graph :: Graph where
  "no_literal_graph =
     [mk_node (OtherKind ''prim::Param'') [] [TensorType (Some kFloat) None] [],
      mk_node onnx_Constant [] [TensorType (Some kFloat) None] [],
      mk_node onnx_Mul [(0, 0), (1, 0)] [TensorType None None] []]"

section \<open>The inputs after the pass\<close>



text \<open>
  The graphs that the pass is meant for: the visited nodes are distinct nodes of the
  graph, and no visited node has an input produced by a node that is visited after it.
\<close>

fun topological :: "Graph \<Rightarrow> nat list \<Rightarrow> bool" where
  "topological g [] = True"
| "topological g (n # ns) = ((\<forall>v \<in> set (inputs (g ! n)). fst v \<notin> set ns) \<and> topological g ns)"

definition well_formed :: "Graph \<Rightarrow> nat list \<Rightarrow> bool" where
  "well_formed g ns \<longleftrightarrow> distinct ns \<and> (\<forall>n \<in> set ns. n < length g) \<and> topological g ns"




section \<open>Nodes that a second run leaves alone\<close>

text \<open>
  An input that the rewriter leaves alone for the target type \<open>T\<close>, and a node that a visit
  leaves alone: inference succeeds on it and, when it yields a type \<open>T\<close>, either \<open>T\<close> has no
  code or the rewriter leaves every input alone, and the output of a STANDARD node is
  annotated with \<open>T\<close> already.
\<close>

definition quiet_input :: "Graph \<Rightarrow> ScalarType \<Rightarrow> Value \<Rightarrow> bool" where
  "quiet_input g T v \<longleftrightarrow>
     (\<exists>m st sz. producer g v = Inr m \<and> kind m \<noteq> onnx_Constant
        \<and> value_type g v = Inr (TensorType st sz) \<and> (st = None \<or> st = Some T))"

definition quiet :: "(ScalarType \<Rightarrow> ScalarType \<Rightarrow> ScalarType) \<Rightarrow> Graph \<Rightarrow> nat \<Rightarrow> bool" where
  "quiet p g N \<longleftrightarrow>
     N < length g \<and>
     (IsImplicitCastSupported (kind (g ! N)) \<longrightarrow>
        (\<exists>e w. InferExpectedScalarType p g N = Inr (e, w)
           \<and> (\<forall>T. e = Some T \<longrightarrow>
                 (ScalarTypeToONNXType T < 0 \<or> (\<forall>v \<in> set (inputs (g ! N)). quiet_input g T v))
                 \<and> (IsComparisonOp (kind (g ! N)) \<or> (\<exists>sz. outputs (g ! N) = [TensorType (Some T) sz])))))"

text \<open>The laws of the promotion that idempotence of the pass rests on.\<close>

definition promotion_laws :: "(ScalarType \<Rightarrow> ScalarType \<Rightarrow> ScalarType) \<Rightarrow> bool" where
  "promotion_laws p \<longleftrightarrow>
     (\<forall>a. p a a = a) \<and> (\<forall>a b. p a b = p b a) \<and> (\<forall>a b c. p (p a b) c = p a (p b c))"

text \<open>
  The inputs of a node before and after its visit, position by position: an input is
  kept, with the contributions it had, which are of the type \<open>T\<close> when they are to the
  tensor bucket; or it is the output of a cast, which contributes \<open>T\<close> to the tensor bucket.
\<close>

definition settled_input :: "Graph \<Rightarrow> Graph \<Rightarrow> ScalarType \<Rightarrow> Value \<Rightarrow> Value \<Rightarrow> bool" where
  "settled_input g g' T v0 v' \<longleftrightarrow>
     (v' = v0 \<and> tensor_contribution g' v0 = tensor_contribution g v0
        \<and> scalar_contribution g' v0 = scalar_contribution g v0
        \<and> set (tensor_contribution g v0) \<subseteq> {T})
     \<or> (tensor_contribution g' v' = [T] \<and> scalar_contribution g' v' = [])"

text \<open>
  The result of inference, from the kind of the node, the number of its inputs, the two
  buckets and the element type of its output.
\<close>

definition infer_result ::
  "(ScalarType \<Rightarrow> ScalarType \<Rightarrow> ScalarType) \<Rightarrow> NodeKind \<Rightarrow> nat \<Rightarrow> ScalarType list \<times> ScalarType list
     \<Rightarrow> ScalarType option \<Rightarrow> ScalarType option \<times> warning list" where
  "infer_result p k n acc ost =
     (if IsComparisonOp k then (PromoteScalarTypes p (snd acc @ fst acc), [])
      else if length (snd acc) = n then (PromoteScalarTypes p (snd acc), [])
      else if ost \<noteq> None then (ost, [])
      else if fst acc \<noteq> [] then
        (Some (fst acc ! 0),
         if list_ex (\<lambda>ty. ty \<noteq> fst acc ! 0) (fst acc) then [TypesMismatch k (fst acc ! 0)] else [])
      else (PromoteScalarTypes p (snd acc), []))"

text \<open>
  The inputs of the whitelisted nodes among \<open>ns\<close> are outputs of other nodes of the
  graph, none of them a constant.
\<close>

definition no_constant_inputs :: "Graph \<Rightarrow> nat list \<Rightarrow> bool" where
  "no_constant_inputs g ns \<longleftrightarrow>
     (\<forall>n \<in> set ns. IsImplicitCastSupported (kind (g ! n)) \<longrightarrow>
        (\<forall>u \<in> set (inputs (g ! n)).
           fst u \<noteq> n \<and> fst u < length g \<and> kind (g ! fst u) \<noteq> onnx_Constant))"

text \<open>
  The invariant of a run over a graph that had \<open>L\<close> nodes: the nodes \<open>D\<close> are visited and
  quiet, the nodes \<open>rest\<close> are to be visited and as they were.
\<close>

definition run_inv ::
  "(ScalarType \<Rightarrow> ScalarType \<Rightarrow> ScalarType) \<Rightarrow> nat \<Rightarrow> PassState \<Rightarrow> nat set \<Rightarrow> nat list \<Rightarrow> bool" where
  "run_inv p L s D rest \<longleftrightarrow>
     distinct rest \<and> D \<inter> set rest = {} \<and> L \<le> length (graph s) \<and> (\<forall>m \<in> set rest. m < L)
     \<and> topological (graph s) rest
     \<and> no_constant_inputs (graph s) rest
     \<and> (\<forall>m \<in> D. quiet p (graph s) m \<and> (\<forall>u \<in> set (inputs (graph s ! m)). fst u \<notin> set rest))
     \<and> (\<forall>j. L \<le> j \<and> j < length (graph s) \<longrightarrow> \<not> IsImplicitCastSupported (kind (graph s ! j)))"

text \<open>
  What the driver does to a block when no visit rewrites anything: the dead code
  elimination alone, on the child blocks and then on the block, as the driver calls it.
\<close>

fun dce_block :: "(Graph \<Rightarrow> Block \<Rightarrow> Block) \<Rightarrow> Graph \<Rightarrow> Block \<Rightarrow> Block"
and dce_nodes :: "(Graph \<Rightarrow> Block \<Rightarrow> Block) \<Rightarrow> Graph \<Rightarrow> Block \<Rightarrow> Block"
and dce_blocks :: "(Graph \<Rightarrow> Block \<Rightarrow> Block) \<Rightarrow> Graph \<Rightarrow> Block list \<Rightarrow> Block list" where
  "dce_block dce g block = dce g (dce_nodes dce g block)"
| "dce_nodes dce g [] = []"
| "dce_nodes dce g (BlockNode n subs # rest) = BlockNode n (dce_blocks dce g subs) # dce_nodes dce g rest"
| "dce_blocks dce g [] = []"
| "dce_blocks dce g (sub # subs) = dce_block dce g sub # dce_blocks dce g subs"

text \<open>The dead code elimination removes nodes from a block and adds none.\<close>

definition only_removes :: "(Graph \<Rightarrow> Block \<Rightarrow> Block) \<Rightarrow> bool" where
  "only_removes dce \<longleftrightarrow> (\<forall>g b. set (visit_order (dce g b)) \<subseteq> set (visit_order b))"

text \<open>The graph of \<open>Add(x, y)\<close>, with \<open>x\<close> a Float tensor and \<open>y\<close> an Int tensor.\<close>

definition mixed_graph :: Graph where
  "mixed_graph =
     [mk_node (OtherKind ''prim::Param'') []
        [TensorType (Some kFloat) None, TensorType (Some kInt) None] [],
      mk_node onnx_Add [(0, 0), (0, 1)] [TensorType None None] []]"

section \<open>Properties\<close>

subsection \<open>Results as values\<close>

lemma bindE_Inr [simp]: "bindE (Inr x) f = f x"
  by (simp add: bindE_def)

lemma bindE_Inl [simp]: "bindE (Inl e) f = Inl e"
  by (simp add: bindE_def)

lemma bindE_eq_Inr: "bindE m f = Inr y \<longleftrightarrow> (\<exists>x. m = Inr x \<and> f x = Inr y)"
  by (cases m) simp_all

lemma shape_gather_check:
  assumes "producer g v = Inr m"
    and "(if kind m = onnx_Gather
            then bindE (input0 m) (\<lambda>v0. bindE (producer g v0) (\<lambda>m0. Inr (kind m0 = onnx_Shape)))
            else Inr False) = Inr sg"
  shows "sg = is_shape_gather g v"
proof (cases "kind m = onnx_Gather")
  case False
  with assms show ?thesis by (simp add: is_shape_gather_def)
next
  case True
  with assms(2) obtain v0 m0 where "input0 m = Inr v0" "producer g v0 = Inr m0"
    "sg = (kind m0 = onnx_Shape)"
    by (auto simp: bindE_eq_Inr)
  with True assms(1) show ?thesis by (simp add: is_shape_gather_def)
qed

lemma collect_input_spec:
  assumes "collect_input g acc v = Inr acc'"
  shows "acc' = (fst acc @ tensor_contribution g v, snd acc @ scalar_contribution g v)
         \<and> (length (scalar_contribution g v) = 1 \<longleftrightarrow> classified_scalar g v)"
proof -
  from assms obtain m sg where m: "producer g v = Inr m"
    and chk: "(if kind m = onnx_Gather
            then bindE (input0 m) (\<lambda>v0. bindE (producer g v0) (\<lambda>m0. Inr (kind m0 = onnx_Shape)))
            else Inr False) = Inr sg"
    and r: "(if sg then Inr (fst acc, snd acc @ [kLong])
       else if kind m = onnx_Constant then
         bindE (attr_t m ''value'') (\<lambda>val. Inr (fst acc, snd acc @ [scalar_type val]))
       else
         bindE (value_type g v) (\<lambda>ty.
         bindE (tensor_scalarType ty) (\<lambda>st.
           case st of
             Some st' \<Rightarrow> Inr (fst acc @ [st'], snd acc)
           | None \<Rightarrow> Inr acc))) = Inr acc'"
    unfolding collect_input_def bindE_eq_Inr by blast
  note sg = shape_gather_check [OF m chk]
  have c: "is_constant g v = (kind m = onnx_Constant)"
    using m by (simp add: is_constant_def)
  show ?thesis
  proof (cases sg)
    case True
    with r sg show ?thesis
      by (simp add: tensor_contribution_def scalar_contribution_def classified_scalar_def)
  next
    case nsg: False
    show ?thesis
    proof (cases "kind m = onnx_Constant")
      case True
      with r nsg obtain val where "attr_t m ''value'' = Inr val"
        "acc' = (fst acc, snd acc @ [scalar_type val])"
        by (auto simp: bindE_eq_Inr)
      with True nsg sg c m show ?thesis
        by (simp add: tensor_contribution_def scalar_contribution_def classified_scalar_def
            literal_type_def)
    next
      case False
      with r nsg have "bindE (value_type g v) (\<lambda>ty.
         bindE (tensor_scalarType ty) (\<lambda>st.
           case st of
             Some st' \<Rightarrow> Inr (fst acc @ [st'], snd acc)
           | None \<Rightarrow> Inr acc)) = Inr acc'"
        by simp
      then obtain ty st where ty: "value_type g v = Inr ty" "tensor_scalarType ty = Inr st"
        and a: "(case st of Some st' \<Rightarrow> Inr (fst acc @ [st'], snd acc) | None \<Rightarrow> Inr acc)
                  = (Inr acc' :: error + ScalarType list \<times> ScalarType list)"
        unfolding bindE_eq_Inr by blast
      from ty have an: "annotated g v = st"
        by (cases ty) (simp_all add: annotated_def tensor_scalarType_def)
      from a an False nsg sg c show ?thesis
        by (cases st) (auto simp: tensor_contribution_def scalar_contribution_def classified_scalar_def)
    qed
  qed
qed

lemma scalar_contribution_le: "length (scalar_contribution g v) \<le> 1"
  by (simp add: scalar_contribution_def split: option.splits)

lemma typesFromScalars_le: "length (typesFromScalars g vs) \<le> length vs"
proof (induction vs)
  case Nil
  show ?case by (simp add: typesFromScalars_def)
next
  case (Cons v vs)
  have "length (typesFromScalars g (v # vs))
          = length (scalar_contribution g v) + length (typesFromScalars g vs)"
    by (simp add: typesFromScalars_def)
  with Cons scalar_contribution_le [of g v] show ?case by simp
qed

lemma collect_inputs_spec:
  "collect_inputs g acc vs = Inr acc' \<Longrightarrow>
     acc' = (fst acc @ typesFromTensors g vs, snd acc @ typesFromScalars g vs)
     \<and> (length (typesFromScalars g vs) = length vs \<longleftrightarrow> (\<forall>v \<in> set vs. classified_scalar g v))"
proof (induction vs arbitrary: acc)
  case Nil
  then show ?case by (simp add: typesFromTensors_def typesFromScalars_def)
next
  case (Cons v vs)
  from Cons.prems obtain a1 where a1: "collect_input g acc v = Inr a1"
    and rest: "collect_inputs g a1 vs = Inr acc'"
    by (auto simp: bindE_eq_Inr)
  note h1 = collect_input_spec [OF a1]
  note h2 = Cons.IH [OF rest]
  have le: "length (typesFromScalars g vs) \<le> length vs"
    by (rule typesFromScalars_le)
  have le1: "length (scalar_contribution g v) \<le> 1"
    by (rule scalar_contribution_le)
  have len: "length (typesFromScalars g (v # vs))
          = length (scalar_contribution g v) + length (typesFromScalars g vs)"
    by (simp add: typesFromScalars_def)
  have eq: "acc' = (fst acc @ typesFromTensors g (v # vs), snd acc @ typesFromScalars g (v # vs))"
    using h1 h2 by (simp add: typesFromTensors_def typesFromScalars_def)
  have "length (typesFromScalars g (v # vs)) = length (v # vs)
          \<longleftrightarrow> length (scalar_contribution g v) = 1 \<and> length (typesFromScalars g vs) = length vs"
    using le le1 len by auto
  with h1 h2 eq show ?case by simp
qed

subsection \<open>TypeCodec\<close>

lemma ScalarTypeToONNXType_cases:
  "ScalarTypeToONNXType st =
     (case st of kFloat \<Rightarrow> 1 | kByte \<Rightarrow> 2 | kChar \<Rightarrow> 3 | kShort \<Rightarrow> 5 | kInt \<Rightarrow> 6
      | kLong \<Rightarrow> 7 | kBool \<Rightarrow> 9 | kHalf \<Rightarrow> 10 | kDouble \<Rightarrow> 11 | _ \<Rightarrow> - 1)"
  by (cases st) (simp_all add: ScalarTypeToONNXType_def scalarTypeToONNXTypeMap_def)

text \<open>
  C9: the codec maps exactly Float to 1, Byte to 2, Char to 3, Short to 5, Int to 6,
  Long to 7, Bool to 9, Half to 10 and Double to 11; every other element type yields the
  sentinel -1, and the codes 4 and 8 are never produced.
\<close>

theorem ScalarTypeToONNXType_table:
  "ScalarTypeToONNXType kFloat = 1 \<and> ScalarTypeToONNXType kByte = 2
   \<and> ScalarTypeToONNXType kChar = 3 \<and> ScalarTypeToONNXType kShort = 5
   \<and> ScalarTypeToONNXType kInt = 6 \<and> ScalarTypeToONNXType kLong = 7
   \<and> ScalarTypeToONNXType kBool = 9 \<and> ScalarTypeToONNXType kHalf = 10
   \<and> ScalarTypeToONNXType kDouble = 11
   \<and> (st \<notin> {kFloat, kByte, kChar, kShort, kInt, kLong, kBool, kHalf, kDouble}
        \<longrightarrow> ScalarTypeToONNXType st = - 1)
   \<and> ScalarTypeToONNXType st \<noteq> 4 \<and> ScalarTypeToONNXType st \<noteq> 8"
  by (cases st) (simp_all add: ScalarTypeToONNXType_cases)

theorem ScalarTypeToONNXType_table_witness:
  "kBFloat16 \<notin> {kFloat, kByte, kChar, kShort, kInt, kLong, kBool, kHalf, kDouble}
   \<and> ScalarTypeToONNXType kBFloat16 = - 1 \<and> ScalarTypeToONNXType kLong = 7"
  using ScalarTypeToONNXType_table [of kBFloat16] by simp

subsection \<open>TypeInference\<close>

lemma list_ex_tl: "xs \<noteq> [] \<Longrightarrow> list_ex (\<lambda>y. y \<noteq> xs ! 0) xs \<longleftrightarrow> (\<exists>y \<in> set (tl xs). y \<noteq> hd xs)"
  by (cases xs) (auto simp: list_ex_iff)

lemma Infer_rule:
  assumes "InferExpectedScalarType promoteTypes g n = Inr r"
  shows "\<exists>st sz. n < length g \<and> outputs (g ! n) = [TensorType st sz] \<and> r = infer_rule promoteTypes g (g ! n) st"
proof -
  from assms obtain nd where nd: "node_at g n = Inr nd" and
    r1: "bindE (collect_inputs g ([], []) (inputs nd)) (\<lambda>acc.
     bindE (output_type nd) (\<lambda>oty.
     bindE (tensor_scalarType oty) (\<lambda>output_st.
       let typesFromTensors = fst acc; typesFromScalars = snd acc in
       Inr (if IsComparisonOp (kind nd) then
              (PromoteScalarTypes promoteTypes (typesFromScalars @ typesFromTensors), [])
            else if length typesFromScalars = length (inputs nd) then
              (PromoteScalarTypes promoteTypes typesFromScalars, [])
            else if output_st \<noteq> None then
              (output_st, [])
            else if typesFromTensors \<noteq> [] then
              (Some (typesFromTensors ! 0),
               if list_ex (\<lambda>ty. ty \<noteq> typesFromTensors ! 0) typesFromTensors
               then [TypesMismatch (kind nd) (typesFromTensors ! 0)] else [])
            else
              (PromoteScalarTypes promoteTypes typesFromScalars, []))))) = Inr r"
    unfolding InferExpectedScalarType_def bindE_eq_Inr [of "node_at g n"] by blast
  from r1 obtain acc where acc: "collect_inputs g ([], []) (inputs nd) = Inr acc" and
    r2: "bindE (output_type nd) (\<lambda>oty.
     bindE (tensor_scalarType oty) (\<lambda>output_st.
       let typesFromTensors = fst acc; typesFromScalars = snd acc in
       Inr (if IsComparisonOp (kind nd) then
              (PromoteScalarTypes promoteTypes (typesFromScalars @ typesFromTensors), [])
            else if length typesFromScalars = length (inputs nd) then
              (PromoteScalarTypes promoteTypes typesFromScalars, [])
            else if output_st \<noteq> None then
              (output_st, [])
            else if typesFromTensors \<noteq> [] then
              (Some (typesFromTensors ! 0),
               if list_ex (\<lambda>ty. ty \<noteq> typesFromTensors ! 0) typesFromTensors
               then [TypesMismatch (kind nd) (typesFromTensors ! 0)] else [])
            else
              (PromoteScalarTypes promoteTypes typesFromScalars, [])))) = Inr r"
    unfolding bindE_eq_Inr [of "collect_inputs g ([], []) (inputs nd)"] by blast
  from r2 obtain oty output_st where
    oty: "output_type nd = Inr oty" and
    ost: "tensor_scalarType oty = Inr output_st" and
    r: "r = (if IsComparisonOp (kind nd) then
         (PromoteScalarTypes promoteTypes (snd acc @ fst acc), [])
       else if length (snd acc) = length (inputs nd) then
         (PromoteScalarTypes promoteTypes (snd acc), [])
       else if output_st \<noteq> None then
         (output_st, [])
       else if fst acc \<noteq> [] then
         (Some (fst acc ! 0),
              if list_ex (\<lambda>ty. ty \<noteq> fst acc ! 0) (fst acc)
              then [TypesMismatch (kind nd) (fst acc ! 0)] else [])
       else
         (PromoteScalarTypes promoteTypes (snd acc), []))"
    unfolding bindE_eq_Inr Let_def by blast
  from nd have ndeq: "nd = g ! n" and n: "n < length g" by (simp_all add: node_at_def split: if_splits)
  from oty ost obtain sz where out: "outputs nd = [TensorType output_st sz]"
    by (auto simp: output_type_def tensor_scalarType_def split: list.splits TypePtr.splits)
  note c = collect_inputs_spec [OF acc]
  from c have f: "fst acc = typesFromTensors g (inputs nd)" and s: "snd acc = typesFromScalars g (inputs nd)"
    by simp_all
  from c have all: "length (snd acc) = length (inputs nd) \<longleftrightarrow> (\<forall>v \<in> set (inputs nd). classified_scalar g v)"
    by simp
  have "r = infer_rule promoteTypes g nd output_st"
    unfolding r infer_rule_def Let_def all unfolding f s
    by (simp add: hd_conv_nth list_ex_tl)
  with out ndeq n show ?thesis by blast
qed


text \<open>
  C2: for a STANDARD node the inference applies its rules in this order. If every input
  is classified as a scalar, the result is the promotion over the scalar bucket: unknown
  when the bucket is empty, else the fold of the promotion of two types from the left
  over the bucket, starting with its first element. Otherwise, if the annotation of the
  output has an element type, that type is the result. Otherwise, if the tensor bucket is
  not empty, its first element is the result, and a warning naming the operator and that
  type is written when another element of the bucket differs. Otherwise the result is
  the promotion over the scalar bucket, which is unknown when the bucket is empty.
\<close>

theorem standard_inference_precedence:
  assumes "InferExpectedScalarType promoteTypes g n = Inr (st, ws)"
    and "IsStandardOp (kind (g ! n))"
  shows "\<exists>outputType sz. outputs (g ! n) = [TensorType outputType sz] \<and>
     (let scalars = typesFromScalars g (inputs (g ! n));
          tensors = typesFromTensors g (inputs (g ! n)) in
      if \<forall>v \<in> set (inputs (g ! n)). classified_scalar g v then
        st = (case scalars of [] \<Rightarrow> None | t # ts \<Rightarrow> Some (foldl promoteTypes t ts)) \<and> ws = []
      else if outputType \<noteq> None then
        st = outputType \<and> ws = []
      else if tensors \<noteq> [] then
        st = Some (tensors ! 0) \<and>
        ws = (if \<exists>ty \<in> set (tl tensors). ty \<noteq> tensors ! 0
              then [TypesMismatch (kind (g ! n)) (tensors ! 0)] else [])
      else
        st = (case scalars of [] \<Rightarrow> None | t # ts \<Rightarrow> Some (foldl promoteTypes t ts)) \<and> ws = []
        \<and> (scalars = [] \<longrightarrow> st = None))"
proof -
  from Infer_rule [OF assms(1)] obtain outputType sz where
    out: "outputs (g ! n) = [TensorType outputType sz]" and
    r: "(st, ws) = infer_rule promoteTypes g (g ! n) outputType"
    by blast
  from assms(2) have nc: "\<not> IsComparisonOp (kind (g ! n))"
    by (auto simp: IsStandardOp_def IsComparisonOp_def standardOps_def comparisonOps_def)
  define A where "A \<longleftrightarrow> (\<forall>v \<in> set (inputs (g ! n)). classified_scalar g v)"
  define S where "S = typesFromScalars g (inputs (g ! n))"
  define T where "T = typesFromTensors g (inputs (g ! n))"
  define F where "F = (case S of [] \<Rightarrow> None | t # ts \<Rightarrow> Some (foldl promoteTypes t ts))"
  have F: "PromoteScalarTypes promoteTypes S = F"
    unfolding F_def by (cases S) simp_all
  have F0: "S = [] \<longrightarrow> F = None" by (simp add: F_def)
  from r nc have r': "(st, ws) =
      (if A then (F, [])
       else if outputType \<noteq> None then (outputType, [])
       else if T \<noteq> [] then
         (Some (hd T), if \<exists>ty \<in> set (tl T). ty \<noteq> hd T then [TypesMismatch (kind (g ! n)) (hd T)] else [])
       else (F, []))"
    unfolding infer_rule_def Let_def A_def [symmetric] S_def [symmetric] T_def [symmetric] F by simp
  have "if A then
        st = F \<and> ws = []
      else if outputType \<noteq> None then
        st = outputType \<and> ws = []
      else if T \<noteq> [] then
        st = Some (T ! 0) \<and>
        ws = (if \<exists>ty \<in> set (tl T). ty \<noteq> T ! 0
              then [TypesMismatch (kind (g ! n)) (T ! 0)] else [])
      else
        st = F \<and> ws = [] \<and> (S = [] \<longrightarrow> st = None)"
  proof (cases A)
    case True
    with r' show ?thesis by simp
  next
    case nA: False
    show ?thesis
    proof (cases "outputType \<noteq> None")
      case True
      with r' nA show ?thesis by simp
    next
      case nO: False
      show ?thesis
      proof (cases "T \<noteq> []")
        case True
        with r' nA nO show ?thesis by (simp add: hd_conv_nth)
      next
        case False
        with r' nA nO F0 show ?thesis by simp
      qed
    qed
  qed
  then have "let scalars = typesFromScalars g (inputs (g ! n));
          tensors = typesFromTensors g (inputs (g ! n)) in
      if \<forall>v \<in> set (inputs (g ! n)). classified_scalar g v then
        st = (case scalars of [] \<Rightarrow> None | t # ts \<Rightarrow> Some (foldl promoteTypes t ts)) \<and> ws = []
      else if outputType \<noteq> None then
        st = outputType \<and> ws = []
      else if tensors \<noteq> [] then
        st = Some (tensors ! 0) \<and>
        ws = (if \<exists>ty \<in> set (tl tensors). ty \<noteq> tensors ! 0
              then [TypesMismatch (kind (g ! n)) (tensors ! 0)] else [])
      else
        st = (case scalars of [] \<Rightarrow> None | t # ts \<Rightarrow> Some (foldl promoteTypes t ts)) \<and> ws = []
        \<and> (scalars = [] \<longrightarrow> st = None)"
    unfolding Let_def A_def S_def T_def F_def .
  with out show ?thesis by blast
qed

theorem standard_inference_precedence_witness:
  "InferExpectedScalarType promote_rank scalars_graph 5 = Inr (Some kFloat, [])
   \<and> IsStandardOp (kind (scalars_graph ! 5))
   \<and> list_all (classified_scalar scalars_graph) (inputs (scalars_graph ! 5))
   \<and> typesFromScalars scalars_graph (inputs (scalars_graph ! 5)) = [kInt, kLong, kFloat]
   \<and> outputs (scalars_graph ! 5) = [TensorType (Some kInt) None]
   \<and> foldl promote_rank kInt [kLong, kFloat] = kFloat
   \<and> InferExpectedScalarType promote_rank example_graph 5 = Inr (Some kFloat, [TypesMismatch onnx_Add kFloat])
   \<and> IsStandardOp (kind (example_graph ! 5))
   \<and> typesFromTensors example_graph (inputs (example_graph ! 5)) = [kFloat, kInt]
   \<and> typesFromScalars example_graph (inputs (example_graph ! 5)) = []
   \<and> outputs (example_graph ! 5) = [TensorType None None]"
proof -
  have a1: "InferExpectedScalarType promote_rank scalars_graph 5 = Inr (Some kFloat, [])"
    by code_simp
  have a2: "IsStandardOp (kind (scalars_graph ! 5))" by code_simp
  have a3': "list_all (classified_scalar scalars_graph) (inputs (scalars_graph ! 5))"
    by code_simp
  then have a3: "\<forall>v \<in> set (inputs (scalars_graph ! 5)). classified_scalar scalars_graph v"
    by (simp add: list_all_iff)
  have a4: "typesFromScalars scalars_graph (inputs (scalars_graph ! 5)) = [kInt, kLong, kFloat]"
    by code_simp
  have a5: "outputs (scalars_graph ! 5) = [TensorType (Some kInt) None]" by code_simp
  from standard_inference_precedence [OF a1 a2] a3 a4
  have a6: "foldl promote_rank kInt [kLong, kFloat] = kFloat"
    by (simp add: Let_def)
  have h1: "InferExpectedScalarType promote_rank example_graph 5
              = Inr (Some kFloat, [TypesMismatch onnx_Add kFloat])"
    by code_simp
  have h2: "IsStandardOp (kind (example_graph ! 5))"
    by code_simp
  have h3: "typesFromTensors example_graph (inputs (example_graph ! 5)) = [kFloat, kInt]"
    by code_simp
  have h4: "typesFromScalars example_graph (inputs (example_graph ! 5)) = []"
    by code_simp
  have h5: "outputs (example_graph ! 5) = [TensorType None None]"
    by code_simp
  from standard_inference_precedence [OF h1 h2] a1 a2 a3' a4 a5 a6 h1 h2 h3 h4 h5 show ?thesis by simp
qed



subsection \<open>InputRewriter\<close>


lemma new_Constant:
  assumes "n < length g"
  shows "replaceInputWith
           (setType (set_attribute (fst (create g onnx_Constant)) (snd (create g onnx_Constant))
                       ''value'' (TensorAttr val))
              (snd (create g onnx_Constant), 0) (TensorType_create val))
           n v (snd (create g onnx_Constant), 0)
         = replaceInputWith g n v (length g, 0) @ [Constant_node val]"
  using assms
  by (simp add: create_def set_attribute_def setType_def replaceInputWith_def Constant_node_def
      setAttr_def nth_append list_update_append)

lemma new_Cast:
  assumes "n < length g"
  shows "replaceInputWith
           (setType (set_attribute (addInput (fst (create g onnx_Cast)) (snd (create g onnx_Cast)) v)
                       (snd (create g onnx_Cast)) ''to'' (IntAttr code))
              (snd (create g onnx_Cast), 0) ty)
           n v (snd (create g onnx_Cast), 0)
         = replaceInputWith g n v (length g, 0) @ [Cast_node v code ty]"
  using assms
  by (simp add: create_def set_attribute_def setType_def replaceInputWith_def Cast_node_def
      addInput_def setAttr_def nth_append list_update_append)

lemma update_input_cases:
  assumes u: "update_input conv code T n (g, ins) i = Inr s'" and n: "n < length g"
  shows "\<exists>m st sz. producer g (inputs (g ! n) ! i) = Inr m
           \<and> value_type g (inputs (g ! n) ! i) = Inr (TensorType st sz)
           \<and> ((kind m = onnx_Constant
                \<and> (\<exists>val. attr_t m ''value'' = Inr val
                     \<and> s' = (replaceInputWith g n (inputs (g ! n) ! i) (length g, 0)
                               @ [Constant_node (tensor_to conv val T)], ins @ [length g])))
              \<or> (kind m \<noteq> onnx_Constant \<and> st \<noteq> None \<and> st \<noteq> Some T
                \<and> s' = (replaceInputWith g n (inputs (g ! n) ! i) (length g, 0)
                          @ [Cast_node (inputs (g ! n) ! i) code (TensorType (Some T) sz)],
                        ins @ [length g]))
              \<or> (kind m \<noteq> onnx_Constant \<and> (st = None \<or> st = Some T) \<and> s' = (g, ins)))"
proof -
  define v where "v = inputs (g ! n) ! i"
  from n have nd: "node_at g n = Inr (g ! n)" by (simp add: node_at_def)
  from u nd obtain ty ist m where ty: "value_type g v = Inr ty"
    and ist: "tensor_scalarType ty = Inr ist"
    and m: "producer g v = Inr m"
    and r: "(if kind m = onnx_Constant \<or> (ist \<noteq> None \<and> ist \<noteq> Some T) then
          if kind m = onnx_Constant then
            bindE (attr_t m ''value'') (\<lambda>val.
              let new_val = tensor_to conv val T;
                  g1 = fst (create g onnx_Constant);
                  const_node = snd (create g onnx_Constant);
                  g2 = set_attribute g1 const_node ''value'' (TensorAttr new_val);
                  g3 = setType g2 (const_node, 0) (TensorType_create new_val);
                  g4 = replaceInputWith g3 n v (const_node, 0)
              in Inr (g4, ins @ [const_node]))
          else
            bindE (CreateProfiledTensorTypeWithScalarType ty T) (\<lambda>cast_type.
              let g1 = fst (create g onnx_Cast);
                  cast_node = snd (create g onnx_Cast);
                  g2 = addInput g1 cast_node v;
                  g3 = set_attribute g2 cast_node ''to'' (IntAttr code);
                  g4 = setType g3 (cast_node, 0) cast_type;
                  g5 = replaceInputWith g4 n v (cast_node, 0)
              in Inr (g5, ins @ [cast_node]))
        else Inr (g, ins)) = (Inr s' :: error + Graph \<times> nat list)"
    unfolding update_input_def v_def Let_def bindE_eq_Inr fst_conv snd_conv by (auto simp: bindE_eq_Inr)
  from ist obtain sz where tyeq: "ty = TensorType ist sz"
    by (cases ty) (simp_all add: tensor_scalarType_def)
  show ?thesis
  proof (cases "kind m = onnx_Constant")
    case True
    with r obtain val where val: "attr_t m ''value'' = Inr val"
      and s': "s' = (replaceInputWith
           (setType (set_attribute (fst (create g onnx_Constant)) (snd (create g onnx_Constant))
                       ''value'' (TensorAttr (tensor_to conv val T)))
              (snd (create g onnx_Constant), 0) (TensorType_create (tensor_to conv val T)))
           n v (snd (create g onnx_Constant), 0), ins @ [snd (create g onnx_Constant)])"
      by (auto simp: bindE_eq_Inr Let_def)
    from s' have "s' = (replaceInputWith g n v (length g, 0)
                               @ [Constant_node (tensor_to conv val T)], ins @ [length g])"
      unfolding new_Constant [OF n] by (simp add: create_def)
    with True val m ty tyeq show ?thesis unfolding v_def by blast
  next
    case nc: False
    show ?thesis
    proof (cases "ist \<noteq> None \<and> ist \<noteq> Some T")
      case True
      with r nc tyeq have s': "s' = (replaceInputWith
           (setType (set_attribute (addInput (fst (create g onnx_Cast)) (snd (create g onnx_Cast)) v)
                       (snd (create g onnx_Cast)) ''to'' (IntAttr code))
              (snd (create g onnx_Cast), 0) (TensorType (Some T) sz))
           n v (snd (create g onnx_Cast), 0), ins @ [snd (create g onnx_Cast)])"
        by (auto simp: bindE_eq_Inr Let_def CreateProfiledTensorTypeWithScalarType_def)
      from s' have "s' = (replaceInputWith g n v (length g, 0)
                          @ [Cast_node v code (TensorType (Some T) sz)], ins @ [length g])"
        unfolding new_Cast [OF n] by (simp add: create_def)
      with True nc m ty tyeq show ?thesis unfolding v_def by blast
    next
      case False
      with r nc have "s' = (g, ins)" by auto
      with False nc m ty tyeq show ?thesis unfolding v_def by simp
    qed
  qed
qed

lemma producer_Inr:
  "producer g v = Inr m \<longleftrightarrow>
     fst v < length g \<and> snd v < length (outputs (g ! fst v)) \<and> m = g ! fst v"
  by (auto simp: producer_def node_at_def bindE_eq_Inr)

lemma value_type_Inr:
  "value_type g v = Inr ty \<longleftrightarrow>
     fst v < length g \<and> snd v < length (outputs (g ! fst v)) \<and> ty = outputs (g ! fst v) ! snd v"
  by (auto simp: value_type_def bindE_eq_Inr producer_Inr)

lemma scalar_type_tensor_to [simp]: "scalar_type (tensor_to conv val T) = T"
  by (simp add: tensor_to_def)

lemma tensor_to_same: "scalar_type val = T \<Longrightarrow> tensor_to conv val T = val"
  by (simp add: tensor_to_def)

lemma Constant_node_sel [simp]:
  "kind (Constant_node val) = onnx_Constant"
  "inputs (Constant_node val) = []"
  "outputs (Constant_node val) = [TensorType_create val]"
  "attr_t (Constant_node val) ''value'' = Inr val"
  by (simp_all add: Constant_node_def attr_t_def)

lemma Cast_node_sel [simp]:
  "kind (Cast_node v code ty) = onnx_Cast"
  "inputs (Cast_node v code ty) = [v]"
  "outputs (Cast_node v code ty) = [ty]"
  "attributes (Cast_node v code ty) = [(''to'', IntAttr code)]"
  by (simp_all add: Cast_node_def)

lemma Constant_node_inject [simp]: "Constant_node val = Constant_node val' \<longleftrightarrow> val = val'"
  by (auto simp: Constant_node_def)

lemma Cast_not_Constant [simp]: "Cast_node v code ty \<noteq> Constant_node val"
  "Constant_node val \<noteq> Cast_node v code ty"
  by (simp_all add: Constant_node_def Cast_node_def)

lemma replaceInputWith_length [simp]: "length (replaceInputWith g n a b) = length g"
  by (simp add: replaceInputWith_def)

lemma replaceInputWith_other: "j \<noteq> n \<Longrightarrow> replaceInputWith g n a b ! j = g ! j"
  by (simp add: replaceInputWith_def)

lemma replaceInputWith_self:
  "n < length g \<Longrightarrow>
     replaceInputWith g n a b ! n = (g ! n)\<lparr>inputs := map (\<lambda>v. if v = a then b else v) (inputs (g ! n))\<rparr>"
  by (simp add: replaceInputWith_def)

text \<open>The store after a step that appends one node and rewires the inputs of n.\<close>

lemma store_kept_step:
  assumes "store_kept g0 n g" and "n < length g0"
  shows "store_kept g0 n (replaceInputWith g n a b @ [x])"
proof -
  from assms have n: "n < length g" by (simp add: store_kept_def)
  have 1: "(replaceInputWith g n a b @ [x]) ! n = replaceInputWith g n a b ! n"
    using n by (simp add: nth_append)
  have 2: "\<And>j. j < length g0 \<Longrightarrow> (replaceInputWith g n a b @ [x]) ! j = replaceInputWith g n a b ! j"
    using assms by (simp add: nth_append store_kept_def)
  show ?thesis
    unfolding store_kept_def
  proof (intro conjI allI impI)
    show "length g0 \<le> length (replaceInputWith g n a b @ [x])"
      using assms by (simp add: store_kept_def)
    fix j assume "j < length g0" "j \<noteq> n"
    then show "(replaceInputWith g n a b @ [x]) ! j = g0 ! j"
      using assms 2 by (simp add: replaceInputWith_other store_kept_def)
  next
    have "g ! n = (g0 ! n)\<lparr>inputs := inputs (g ! n)\<rparr>"
      using assms by (simp add: store_kept_def)
    then have "(g ! n)\<lparr>inputs := vs\<rparr> = (g0 ! n)\<lparr>inputs := vs\<rparr>" for vs
      by (metis Node.update_convs(2) Node.surjective)
    then show "(replaceInputWith g n a b @ [x]) ! n
        = (g0 ! n)\<lparr>inputs := inputs ((replaceInputWith g n a b @ [x]) ! n)\<rparr>"
      unfolding 1 using n by (simp add: replaceInputWith_self)
    show "length (inputs ((replaceInputWith g n a b @ [x]) ! n)) = length (inputs (g0 ! n))"
      unfolding 1 using n assms by (simp add: replaceInputWith_self store_kept_def)
  qed
qed

lemma producer_unfold:
  "producer g v =
     (if fst v < length g \<and> snd v < length (outputs (g ! fst v)) then Inr (g ! fst v) else Inl Dangling)"
  by (simp add: producer_def node_at_def)

lemma value_type_unfold:
  "value_type g v =
     (if fst v < length g \<and> snd v < length (outputs (g ! fst v))
      then Inr (outputs (g ! fst v) ! snd v) else Inl Dangling)"
  by (simp add: value_type_def producer_unfold)

lemma store_kept_old:
  assumes "store_kept g0 n g" and "j < length g0"
  shows "kind (g ! j) = kind (g0 ! j)" and "outputs (g ! j) = outputs (g0 ! j)"
    and "attributes (g ! j) = attributes (g0 ! j)"
proof -
  have "kind (g ! j) = kind (g0 ! j) \<and> outputs (g ! j) = outputs (g0 ! j)
          \<and> attributes (g ! j) = attributes (g0 ! j)"
  proof (cases "j = n")
    case True
    from assms(1) have "g ! n = (g0 ! n)\<lparr>inputs := inputs (g ! n)\<rparr>" by (simp add: store_kept_def)
    then have "kind (g ! n) = kind ((g0 ! n)\<lparr>inputs := inputs (g ! n)\<rparr>)"
      "outputs (g ! n) = outputs ((g0 ! n)\<lparr>inputs := inputs (g ! n)\<rparr>)"
      "attributes (g ! n) = attributes ((g0 ! n)\<lparr>inputs := inputs (g ! n)\<rparr>)"
      by simp_all
    with True show ?thesis by simp
  next
    case False
    with assms show ?thesis by (simp add: store_kept_def)
  qed
  then show "kind (g ! j) = kind (g0 ! j)" and "outputs (g ! j) = outputs (g0 ! j)"
    and "attributes (g ! j) = attributes (g0 ! j)" by simp_all
qed

lemma store_kept_length: "store_kept g0 n g \<Longrightarrow> length g0 \<le> length g"
  by (simp add: store_kept_def)

lemma old_value_type:
  assumes "store_kept g0 n g" and "fst v < length g0"
  shows "value_type g v = value_type g0 v"
  using assms store_kept_old(2) [OF assms] store_kept_length [OF assms(1)]
  by (simp add: value_type_unfold)

lemma old_producer:
  assumes "store_kept g0 n g" and "fst v < length g0" and "producer g v = Inr m"
  shows "\<exists>m0. producer g0 v = Inr m0 \<and> kind m0 = kind m \<and> attr_t m0 name = attr_t m name"
proof -
  from assms(3) have m: "m = g ! fst v" and s: "snd v < length (outputs (g ! fst v))"
    by (simp_all add: producer_Inr)
  note o = store_kept_old [OF assms(1,2)]
  from s o assms(2) have "producer g0 v = Inr (g0 ! fst v)" by (simp add: producer_Inr)
  moreover have "kind (g0 ! fst v) = kind m" using m o by simp
  moreover have "attr_t (g0 ! fst v) name = attr_t m name" using m o by (simp add: attr_t_def)
  ultimately show ?thesis by blast
qed

lemma extends_step:
  assumes "n < L"
  shows "extends L g (replaceInputWith g n a b @ [x])"
  using assms by (auto simp: extends_def nth_append replaceInputWith_other)

lemma input_done_mono:
  assumes "extends (length g0) g g'" and "input_done conv code T g0 g v0 v"
  shows "input_done conv code T g0 g' v0 v"
proof -
  have c: "rewritten_Constant conv T g0 g v0 v \<Longrightarrow> rewritten_Constant conv T g0 g' v0 v"
    using assms(1) unfolding rewritten_Constant_def extends_def
    by (metis order_less_le_trans)
  have d: "rewritten_Cast code T g0 g v0 v \<Longrightarrow> rewritten_Cast code T g0 g' v0 v"
    using assms(1) unfolding rewritten_Cast_def extends_def
    by (metis order_less_le_trans)
  from assms(2) c d show ?thesis unfolding input_done_def by blast
qed

lemma input_pending_mono:
  assumes "extends (length g0) g g'" and "input_pending conv code T g0 g v0 v"
  shows "input_pending conv code T g0 g' v0 v"
  using assms input_done_mono unfolding input_pending_def by blast

lemma fresh_nodes_step:
  assumes "fresh_nodes code T g0 g" and "n < length g0" and "length g0 \<le> length g"
    and "(\<exists>val. x = Constant_node val \<and> scalar_type val = T)
        \<or> (\<exists>src sz. x = Cast_node src code (TensorType (Some T) sz))"
  shows "fresh_nodes code T g0 (replaceInputWith g n a b @ [x])"
  unfolding fresh_nodes_def
proof (intro allI impI)
  fix j assume j: "length g0 \<le> j \<and> j < length (replaceInputWith g n a b @ [x])"
  show "(\<exists>val. (replaceInputWith g n a b @ [x]) ! j = Constant_node val \<and> scalar_type val = T)
        \<or> (\<exists>src sz. (replaceInputWith g n a b @ [x]) ! j = Cast_node src code (TensorType (Some T) sz))"
  proof (cases "j < length g")
    case True
    with j assms(2) have "(replaceInputWith g n a b @ [x]) ! j = g ! j"
      by (simp add: nth_append replaceInputWith_other)
    with True j assms(1) show ?thesis by (simp add: fresh_nodes_def)
  next
    case False
    with j have "j = length g" by simp
    then have "(replaceInputWith g n a b @ [x]) ! j = x" by (simp add: nth_append)
    with assms(4) show ?thesis by simp
  qed
qed

lemma inputs_step:
  assumes "n < length g"
  shows "inputs ((replaceInputWith g n a b @ [x]) ! n) = map (\<lambda>v. if v = a then b else v) (inputs (g ! n))"
  using assms by (simp add: nth_append replaceInputWith_self)

text \<open>
  A step that appends the node x and rewires every occurrence of v to the output of x
  keeps the invariant, when the output of x is the right replacement at all the
  positions where v stands.
\<close>

lemma loop_inv_rewire:
  assumes inv: "loop_inv conv code T g0 n k (g, ins)" and n: "n < length g0"
    and x: "(\<exists>val. x = Constant_node val \<and> scalar_type val = T)
        \<or> (\<exists>src sz. x = Cast_node src code (TensorType (Some T) sz))"
    and v: "inputs (g ! n) ! k = v" and k: "k < length (inputs (g0 ! n))"
    and new: "\<And>i. i < length (inputs (g0 ! n)) \<Longrightarrow> inputs (g ! n) ! i = v \<Longrightarrow>
          input_done conv code T g0 (replaceInputWith g n v (length g, 0) @ [x])
            (inputs (g0 ! n) ! i) (length g, 0)"
  shows "loop_inv conv code T g0 n (Suc k)
           (replaceInputWith g n v (length g, 0) @ [x], ins @ [length g])"
proof -
  let ?g' = "replaceInputWith g n v (length g, 0) @ [x]"
  from inv have sk: "store_kept g0 n g" and fn: "fresh_nodes code T g0 g"
    and ins: "ins = [length g0..<length g]"
    and pos: "\<And>i. i < length (inputs (g0 ! n)) \<Longrightarrow>
           (i < k \<longrightarrow> input_done conv code T g0 g (inputs (g0 ! n) ! i) (inputs (g ! n) ! i))
           \<and> (k \<le> i \<longrightarrow> input_pending conv code T g0 g (inputs (g0 ! n) ! i) (inputs (g ! n) ! i))"
    by (simp_all add: loop_inv_def)
  note len = store_kept_length [OF sk]
  from n len have ng: "n < length g" by simp
  from sk have leq: "length (inputs (g ! n)) = length (inputs (g0 ! n))" by (simp add: store_kept_def)
  have ext: "extends (length g0) g ?g'" by (rule extends_step [OF n])
  have 1: "store_kept g0 n ?g'" by (rule store_kept_step [OF sk n])
  have 2: "fresh_nodes code T g0 ?g'" by (rule fresh_nodes_step [OF fn n len x])
  have 3: "ins @ [length g] = [length g0..<length ?g']" using ins len by simp
  have 4: "(i < Suc k
              \<longrightarrow> input_done conv code T g0 ?g' (inputs (g0 ! n) ! i) (inputs (?g' ! n) ! i))
           \<and> (Suc k \<le> i
              \<longrightarrow> input_pending conv code T g0 ?g' (inputs (g0 ! n) ! i) (inputs (?g' ! n) ! i))"
    if i: "i < length (inputs (g0 ! n))" for i
  proof (cases "inputs (g ! n) ! i = v")
    case True
    with i leq have "inputs (?g' ! n) ! i = (length g, 0)"
      by (simp add: inputs_step [OF ng])
    with new [OF i True] show ?thesis by (simp add: input_pending_def)
  next
    case False
    with i leq have same: "inputs (?g' ! n) ! i = inputs (g ! n) ! i"
      by (simp add: inputs_step [OF ng])
    from False v have "i \<noteq> k" by blast
    with pos [OF i] input_done_mono [OF ext] input_pending_mono [OF ext] same
    show ?thesis by (auto simp: less_Suc_eq)
  qed
  from 1 2 3 4 show ?thesis by (simp add: loop_inv_def)
qed

lemma loop_inv_step:
  assumes inv: "loop_inv conv code T g0 n k s" and n: "n < length g0"
    and k: "k < length (inputs (g0 ! n))"
    and step: "update_input conv code T n s k = Inr s'"
  shows "loop_inv conv code T g0 n (Suc k) s'"
proof -
  obtain g ins where s: "s = (g, ins)" by (cases s)
  define v where "v = inputs (g ! n) ! k"
  from inv s have inv': "loop_inv conv code T g0 n k (g, ins)" by simp
  from inv' have sk: "store_kept g0 n g" and fn: "fresh_nodes code T g0 g"
    and pos: "\<And>i. i < length (inputs (g0 ! n)) \<Longrightarrow>
           (i < k \<longrightarrow> input_done conv code T g0 g (inputs (g0 ! n) ! i) (inputs (g ! n) ! i))
           \<and> (k \<le> i \<longrightarrow> input_pending conv code T g0 g (inputs (g0 ! n) ! i) (inputs (g ! n) ! i))"
    by (simp_all add: loop_inv_def)
  note len = store_kept_length [OF sk]
  from n len have ng: "n < length g" by simp
  from update_input_cases [OF step [unfolded s] ng]
  obtain m st sz where pm: "producer g v = Inr m"
    and vt: "value_type g v = Inr (TensorType st sz)"
    and cases: "(kind m = onnx_Constant
                \<and> (\<exists>val. attr_t m ''value'' = Inr val
                     \<and> s' = (replaceInputWith g n v (length g, 0)
                               @ [Constant_node (tensor_to conv val T)], ins @ [length g])))
              \<or> (kind m \<noteq> onnx_Constant \<and> st \<noteq> None \<and> st \<noteq> Some T
                \<and> s' = (replaceInputWith g n v (length g, 0)
                          @ [Cast_node v code (TensorType (Some T) sz)],
                        ins @ [length g]))
              \<or> (kind m \<noteq> onnx_Constant \<and> (st = None \<or> st = Some T) \<and> s' = (g, ins))"
    unfolding v_def by blast
  from pm have fv: "fst v < length g" and sv: "snd v < length (outputs (g ! fst v))"
    and m: "m = g ! fst v"
    by (simp_all add: producer_Inr)
  have vk: "inputs (g ! n) ! k = v" by (simp add: v_def)
  from pos [OF k] have pk: "input_pending conv code T g0 g (inputs (g0 ! n) ! k) v"
    by (simp add: v_def)
  have unchanged: "loop_inv conv code T g0 n (Suc k) (g, ins)"
    if d: "input_done conv code T g0 g (inputs (g0 ! n) ! k) v"
  proof -
    have "(i < Suc k \<longrightarrow> input_done conv code T g0 g (inputs (g0 ! n) ! i) (inputs (g ! n) ! i))
           \<and> (Suc k \<le> i \<longrightarrow> input_pending conv code T g0 g (inputs (g0 ! n) ! i) (inputs (g ! n) ! i))"
      if "i < length (inputs (g0 ! n))" for i
      using pos [OF that] d by (auto simp: less_Suc_eq v_def)
    with inv' show ?thesis by (simp add: loop_inv_def)
  qed
  show ?thesis
  proof (cases "fst v < length g0")
    case old: True
    \<comment> \<open>the input at position k is still the original one\<close>
    from pk old have v0: "inputs (g0 ! n) ! k = v"
      by (auto simp: input_pending_def input_done_def rewritten_Constant_def rewritten_Cast_def
          kept_def outside_def)
    from old_producer [OF sk old pm, of "''value''"] obtain m0 where
      pm0: "producer g0 v = Inr m0" and km0: "kind m0 = kind m"
      and am0: "attr_t m0 ''value'' = attr_t m ''value''"
      by blast
    from old_value_type [OF sk old] vt have vt0: "value_type g0 v = Inr (TensorType st sz)"
      by simp
    have same: "inputs (g0 ! n) ! i = v"
      if i: "i < length (inputs (g0 ! n))" and c: "inputs (g ! n) ! i = v" for i
      using pos [OF i] c old
      by (cases "i < k")
        (auto simp: input_pending_def input_done_def rewritten_Constant_def rewritten_Cast_def
          kept_def outside_def)
    from cases consider
      (const) val where "kind m = onnx_Constant" "attr_t m ''value'' = Inr val"
        "s' = (replaceInputWith g n v (length g, 0)
                               @ [Constant_node (tensor_to conv val T)], ins @ [length g])"
      | (cast) "kind m \<noteq> onnx_Constant" "st \<noteq> None" "st \<noteq> Some T"
        "s' = (replaceInputWith g n v (length g, 0)
                          @ [Cast_node v code (TensorType (Some T) sz)], ins @ [length g])"
      | (same) "kind m \<noteq> onnx_Constant" "st = None \<or> st = Some T" "s' = (g, ins)"
      by blast
    then show ?thesis
    proof cases
      case const
      note c = const(1,2) and s' = const(3)
      have "input_done conv code T g0
              (replaceInputWith g n v (length g, 0) @ [Constant_node (tensor_to conv val T)])
              (inputs (g0 ! n) ! i) (length g, 0)"
        if i: "i < length (inputs (g0 ! n))" and ci: "inputs (g ! n) ! i = v" for i
        unfolding same [OF i ci] input_done_def rewritten_Constant_def
        using pm0 km0 am0 c len by (simp add: nth_append)
      note new = this
      have xok: "(\<exists>val'. Constant_node (tensor_to conv val T) = Constant_node val' \<and> scalar_type val' = T)
        \<or> (\<exists>src sz. Constant_node (tensor_to conv val T) = Cast_node src code (TensorType (Some T) sz))"
        by simp
      from loop_inv_rewire [OF inv' n xok vk k new] s'
      show ?thesis by simp
    next
      case cast
      note c = cast(1,2,3) and s' = cast(4)
      from c obtain st' where st': "st = Some st'" "st' \<noteq> T" by (cases st) auto
      have "input_done conv code T g0
              (replaceInputWith g n v (length g, 0) @ [Cast_node v code (TensorType (Some T) sz)])
              (inputs (g0 ! n) ! i) (length g, 0)"
        if i: "i < length (inputs (g0 ! n))" and ci: "inputs (g ! n) ! i = v" for i
        unfolding same [OF i ci] input_done_def rewritten_Cast_def
        using pm0 km0 vt0 st' c len by (simp add: nth_append)
      note new = this
      have xok: "(\<exists>val'. Cast_node v code (TensorType (Some T) sz) = Constant_node val' \<and> scalar_type val' = T)
        \<or> (\<exists>src sz'. Cast_node v code (TensorType (Some T) sz) = Cast_node src code (TensorType (Some T) sz'))"
        by blast
      from loop_inv_rewire [OF inv' n xok vk k new] s'
      show ?thesis by simp
    next
      case same
      note c = same(1,2) and s' = same(3)
      have "kept T g0 (inputs (g0 ! n) ! k) v"
        unfolding kept_def using v0 pm0 km0 vt0 c by simp
      then have "input_done conv code T g0 g (inputs (g0 ! n) ! k) v"
        by (simp add: input_done_def)
      from unchanged [OF this] s' show ?thesis by simp
    qed
  next
    case new: False
    \<comment> \<open>the input at position k was rewired by an earlier iteration\<close>
    from pk new have dk: "input_done conv code T g0 g (inputs (g0 ! n) ! k) v"
      by (auto simp: input_pending_def input_done_def outside_def)
    from fn new fv have "(\<exists>val. g ! fst v = Constant_node val \<and> scalar_type val = T)
        \<or> (\<exists>src sz. g ! fst v = Cast_node src code (TensorType (Some T) sz))"
      by (simp add: fresh_nodes_def)
    then show ?thesis
    proof (elim disjE exE conjE)
      fix val' assume c: "g ! fst v = Constant_node val'" and t: "scalar_type val' = T"
      with m cases have s': "s' = (replaceInputWith g n v (length g, 0)
                               @ [Constant_node val'], ins @ [length g])"
        by (auto simp: tensor_to_same)
      have "input_done conv code T g0
              (replaceInputWith g n v (length g, 0) @ [Constant_node val'])
              (inputs (g0 ! n) ! i) (length g, 0)"
        if i: "i < length (inputs (g0 ! n))" and ci: "inputs (g ! n) ! i = v" for i
      proof -
        from pos [OF i] ci new have "input_done conv code T g0 g (inputs (g0 ! n) ! i) v"
          by (cases "i < k") (auto simp: input_pending_def input_done_def outside_def)
        then consider "rewritten_Constant conv T g0 g (inputs (g0 ! n) ! i) v"
          | "outside g0 (inputs (g0 ! n) ! i) v"
          using c new by (auto simp: input_done_def rewritten_Cast_def kept_def producer_Inr)
        then show ?thesis
        proof cases
          case 1
          then show ?thesis
            unfolding input_done_def rewritten_Constant_def using c len
            by (auto simp: nth_append)
        next
          case 2
          then show ?thesis
            unfolding input_done_def outside_def using len by simp
        qed
      qed
      note new = this
      have xok: "(\<exists>val. Constant_node val' = Constant_node val \<and> scalar_type val = T)
        \<or> (\<exists>src sz. Constant_node val' = Cast_node src code (TensorType (Some T) sz))"
        using t by simp
      from loop_inv_rewire [OF inv' n xok vk k new] s'
      show ?thesis by simp
    next
      fix src sz' assume c: "g ! fst v = Cast_node src code (TensorType (Some T) sz')"
      with sv have "snd v = 0" by simp
      with c vt fv have "st = Some T" by (simp add: value_type_Inr)
      with c m cases have "s' = (g, ins)" by auto
      with unchanged [OF dk] show ?thesis by simp
    qed
  qed
qed

lemma loop_inv_init:
  assumes "n < length g0"
  shows "loop_inv conv code T g0 n 0 (g0, [])"
proof -
  have "input_pending conv code T g0 g0 v v" for v
    by (cases "fst v < length g0") (simp_all add: input_pending_def input_done_def outside_def)
  moreover have "fresh_nodes code T g0 g0"
    unfolding fresh_nodes_def by (intro allI impI) linarith
  ultimately show ?thesis
    by (simp add: loop_inv_def store_kept_def)
qed

lemma loop_inv_loop:
  assumes "update_inputs conv code T n s [k..<N] = Inr s'"
    and "loop_inv conv code T g0 n k s" and "n < length g0"
    and "N \<le> length (inputs (g0 ! n))"
  shows "loop_inv conv code T g0 n (max k N) s'"
  using assms
proof (induction "N - k" arbitrary: k s)
  case 0
  then show ?case by (simp add: max_def)
next
  case (Suc d)
  then have kN: "k < N" by simp
  then have "[k..<N] = k # [Suc k..<N]" by (simp add: upt_conv_Cons)
  with Suc.prems(1) obtain s1 where s1: "update_input conv code T n s k = Inr s1"
    and rest: "update_inputs conv code T n s1 [Suc k..<N] = Inr s'"
    by (auto simp: bindE_eq_Inr)
  from kN Suc.prems(4) have "k < length (inputs (g0 ! n))" by simp
  from loop_inv_step [OF Suc.prems(2) Suc.prems(3) this s1]
  have i1: "loop_inv conv code T g0 n (Suc k) s1" .
  from Suc.hyps(2) have "d = N - Suc k" by simp
  from Suc.hyps(1) [OF this rest i1 Suc.prems(3) Suc.prems(4)] kN
  show ?case by (simp add: max_def)
qed

lemma UpdateScalarTypeForInputs_inv:
  assumes "UpdateScalarTypeForInputs conv g n T = Inr (g', ins, ws)"
    and "0 \<le> ScalarTypeToONNXType T"
  shows "n < length g \<and> ws = []
     \<and> loop_inv conv (ScalarTypeToONNXType T) T g n (length (inputs (g ! n))) (g', ins)"
proof -
  from assms(1) have n: "n < length g"
    by (auto simp: UpdateScalarTypeForInputs_def Let_def bindE_eq_Inr node_at_def split: if_splits)
  then have nd: "node_at g n = Inr (g ! n)" by (simp add: node_at_def)
  from assms nd obtain s where
    l: "update_inputs conv (ScalarTypeToONNXType T) T n (g, []) [0..<length (inputs (g ! n))] = Inr s"
    and r: "g' = fst s" "ins = snd s" "ws = []"
    by (auto simp: UpdateScalarTypeForInputs_def Let_def bindE_eq_Inr)
  from loop_inv_loop [OF l loop_inv_init [OF n] n order_refl] r n
  show ?thesis by simp
qed

lemma UpdateScalarTypeForInputs_not_supported:
  assumes "ScalarTypeToONNXType T < 0" and "n < length g"
  shows "UpdateScalarTypeForInputs conv g n T = Inr (g, [], [NotSupported T (kind (g ! n))])"
  using assms by (simp add: UpdateScalarTypeForInputs_def node_at_def)

lemma loop_inv_done:
  assumes "loop_inv conv code T g0 n (length (inputs (g0 ! n))) (g', ins)"
    and "i < length (inputs (g0 ! n))"
  shows "input_done conv code T g0 g' (inputs (g0 ! n) ! i) (inputs (g' ! n) ! i)"
  using assms by (simp add: loop_inv_def)

lemma upt_mem: "a \<le> c \<Longrightarrow> c < b \<Longrightarrow> c \<in> set [a..<b]"
  by simp

text \<open>
  What the rewriter of the inputs makes of an input whose producer is a constant: the
  store holds a fresh constant node with the converted literal, and the input edge of
  the consumer points to it.
\<close>

lemma constant_input_store:
  assumes "UpdateScalarTypeForInputs conv g n T = Inr (g', ins, ws)"
    and "0 \<le> ScalarTypeToONNXType T"
    and "i < length (inputs (g ! n))"
    and "producer g (inputs (g ! n) ! i) = Inr m"
    and "kind m = onnx_Constant"
  shows "\<exists>val c. attr_t m ''value'' = Inr val
           \<and> inputs (g' ! n) ! i = (c, 0) \<and> length g \<le> c \<and> c < length g' \<and> c \<in> set ins
           \<and> kind (g' ! c) = onnx_Constant \<and> inputs (g' ! c) = []
           \<and> attributes (g' ! c) = [(''value'', TensorAttr (tensor_to conv val T))]
           \<and> outputs (g' ! c) = [TensorType (Some T) (Some (tensor_sizes val))]
           \<and> kind (g' ! fst (inputs (g ! n) ! i)) = onnx_Constant
           \<and> attributes (g' ! fst (inputs (g ! n) ! i)) = attributes m
           \<and> outputs (g' ! fst (inputs (g ! n) ! i)) = outputs m"
proof -
  define v0 where "v0 = inputs (g ! n) ! i"
  note inv = UpdateScalarTypeForInputs_inv [OF assms(1,2)]
  then have li: "loop_inv conv (ScalarTypeToONNXType T) T g n (length (inputs (g ! n))) (g', ins)"
    by simp
  from li have sk: "store_kept g n g'" and ins: "ins = [length g..<length g']"
    by (simp_all add: loop_inv_def)
  from assms(4) have old: "fst v0 < length g" and m: "m = g ! fst v0"
    by (simp_all add: producer_Inr v0_def)
  from loop_inv_done [OF li assms(3)] assms(4,5) old
  have "rewritten_Constant conv T g g' v0 (inputs (g' ! n) ! i)"
    by (auto simp: input_done_def rewritten_Cast_def kept_def outside_def v0_def)
  then obtain val where val: "attr_t m ''value'' = Inr val"
    and c: "length g \<le> fst (inputs (g' ! n) ! i)" "fst (inputs (g' ! n) ! i) < length g'"
      "snd (inputs (g' ! n) ! i) = 0"
      "g' ! fst (inputs (g' ! n) ! i) = Constant_node (tensor_to conv val T)"
    using assms(4) by (auto simp: rewritten_Constant_def v0_def)
  define c where "c = fst (inputs (g' ! n) ! i)"
  from c have 1: "inputs (g' ! n) ! i = (c, 0)" by (simp add: c_def prod_eq_iff)
  from c ins have 2: "c \<in> set ins" by (simp add: c_def)
  have 3: "kind (g' ! c) = onnx_Constant \<and> inputs (g' ! c) = []
           \<and> attributes (g' ! c) = [(''value'', TensorAttr (tensor_to conv val T))]
           \<and> outputs (g' ! c) = [TensorType (Some T) (Some (tensor_sizes val))]"
    using c(4) by (simp add: c_def Constant_node_def TensorType_create_def tensor_to_def)
  note o = store_kept_old [OF sk old]
  from o m assms(5) have 4: "kind (g' ! fst v0) = onnx_Constant
           \<and> attributes (g' ! fst v0) = attributes m \<and> outputs (g' ! fst v0) = outputs m"
    by simp
  from val 1 2 3 4 c(1,2) show ?thesis unfolding c_def v0_def by blast
qed

text \<open>
  What the rewriter of the inputs makes of an input whose producer is not a constant: a
  fresh Cast node when the annotation has another element type, nothing otherwise.
\<close>

lemma tensor_input_store:
  assumes "UpdateScalarTypeForInputs conv g n T = Inr (g', ins, ws)"
    and "0 \<le> ScalarTypeToONNXType T"
    and "i < length (inputs (g ! n))"
    and "producer g (inputs (g ! n) ! i) = Inr m"
    and "kind m \<noteq> onnx_Constant"
    and "value_type g (inputs (g ! n) ! i) = Inr (TensorType st sz)"
  shows "(st \<noteq> None \<and> st \<noteq> Some T \<longrightarrow>
            (\<exists>c. inputs (g' ! n) ! i = (c, 0) \<and> length g \<le> c \<and> c < length g' \<and> c \<in> set ins
               \<and> kind (g' ! c) = onnx_Cast \<and> inputs (g' ! c) = [inputs (g ! n) ! i]
               \<and> attributes (g' ! c) = [(''to'', IntAttr (ScalarTypeToONNXType T))]
               \<and> outputs (g' ! c) = [TensorType (Some T) sz]))
       \<and> (st = None \<or> st = Some T \<longrightarrow> inputs (g' ! n) ! i = inputs (g ! n) ! i)"
proof -
  define v0 where "v0 = inputs (g ! n) ! i"
  note inv = UpdateScalarTypeForInputs_inv [OF assms(1,2)]
  then have li: "loop_inv conv (ScalarTypeToONNXType T) T g n (length (inputs (g ! n))) (g', ins)"
    by simp
  from li have ins: "ins = [length g..<length g']"
    by (simp_all add: loop_inv_def)
  from assms(4) have old: "fst v0 < length g"
    by (simp_all add: producer_Inr v0_def)
  from loop_inv_done [OF li assms(3)] assms(4,5) old
  have d: "rewritten_Cast (ScalarTypeToONNXType T) T g g' v0 (inputs (g' ! n) ! i)
        \<or> kept T g v0 (inputs (g' ! n) ! i)"
    by (auto simp: input_done_def rewritten_Constant_def outside_def v0_def)
  show ?thesis
  proof (intro conjI impI)
    assume st: "st \<noteq> None \<and> st \<noteq> Some T"
    with d assms(6) have "rewritten_Cast (ScalarTypeToONNXType T) T g g' v0 (inputs (g' ! n) ! i)"
      by (auto simp: kept_def v0_def)
    with assms(6) have c: "length g \<le> fst (inputs (g' ! n) ! i)" "fst (inputs (g' ! n) ! i) < length g'"
      "snd (inputs (g' ! n) ! i) = 0"
      "g' ! fst (inputs (g' ! n) ! i) = Cast_node v0 (ScalarTypeToONNXType T) (TensorType (Some T) sz)"
      by (auto simp: rewritten_Cast_def v0_def)
    define c where "c = fst (inputs (g' ! n) ! i)"
    from c have 1: "inputs (g' ! n) ! i = (c, 0)" by (simp add: c_def prod_eq_iff)
    from c ins have 2: "c \<in> set ins" by (simp add: c_def)
    from c(4) have 3: "kind (g' ! c) = onnx_Cast \<and> inputs (g' ! c) = [v0]
               \<and> attributes (g' ! c) = [(''to'', IntAttr (ScalarTypeToONNXType T))]
               \<and> outputs (g' ! c) = [TensorType (Some T) sz]"
      by (simp add: c_def)
    from 1 2 3 c(1,2) show "\<exists>c. inputs (g' ! n) ! i = (c, 0) \<and> length g \<le> c \<and> c < length g' \<and> c \<in> set ins
               \<and> kind (g' ! c) = onnx_Cast \<and> inputs (g' ! c) = [inputs (g ! n) ! i]
               \<and> attributes (g' ! c) = [(''to'', IntAttr (ScalarTypeToONNXType T))]
               \<and> outputs (g' ! c) = [TensorType (Some T) sz]"
      unfolding c_def v0_def by blast
  next
    assume "st = None \<or> st = Some T"
    with d assms(6) have "kept T g v0 (inputs (g' ! n) ! i)"
      by (auto simp: rewritten_Cast_def v0_def)
    then show "inputs (g' ! n) ! i = inputs (g ! n) ! i"
      by (simp add: kept_def v0_def)
  qed
qed


lemma Inr_ex: "(case x of Inr r \<Rightarrow> True | Inl e \<Rightarrow> False) \<Longrightarrow> \<exists>r. x = Inr r"
  by (cases x) simp_all

lemma standard_not_comparison: "IsStandardOp k \<Longrightarrow> \<not> IsComparisonOp k"
  by (auto simp: IsStandardOp_def IsComparisonOp_def standardOps_def comparisonOps_def)

lemma UpdateScalarTypeForOutput_single:
  assumes "n < length g" and "outputs (g ! n) = [TensorType st sz]"
  shows "UpdateScalarTypeForOutput g n T = Inr (g[n := (g ! n)\<lparr>outputs := [TensorType (Some T) sz]\<rparr>])"
  using assms
  by (simp add: UpdateScalarTypeForOutput_def node_at_def output_type_def
      CreateProfiledTensorTypeWithScalarType_def setType_def)

text \<open>
  C8: when the inferred type has no wire-format code (the codec yields -1), the rewriter
  of the inputs writes a warning naming the type and the operator and returns the graph
  unchanged; the visit of the node, STANDARD or COMPARISON, does not fail and leaves the
  inputs of the node and every other node as they were; for a STANDARD node it sets the
  annotation of the output to the inferred type, for a COMPARISON node it leaves the
  graph as it was.
\<close>

theorem unsupported_type_skips_inputs:
  assumes "n < length (graph s)" and "IsImplicitCastSupported (kind (graph s ! n))"
    and "InferExpectedScalarType promoteTypes (graph s) n = Inr (Some T, w1)"
    and "ScalarTypeToONNXType T = - 1"
  shows "UpdateScalarTypeForInputs conv (graph s) n T
           = Inr (graph s, [], [NotSupported T (kind (graph s ! n))])
     \<and> (\<exists>s' st sz. visit promoteTypes conv s n = Inr ([], s')
           \<and> length (graph s') = length (graph s)
           \<and> inputs (graph s' ! n) = inputs (graph s ! n)
           \<and> (\<forall>j. j \<noteq> n \<longrightarrow> graph s' ! j = graph s ! j)
           \<and> warnings s' = warnings s @ w1 @ [NotSupported T (kind (graph s ! n))]
           \<and> outputs (graph s ! n) = [TensorType st sz]
           \<and> (IsStandardOp (kind (graph s ! n)) \<longrightarrow> outputs (graph s' ! n) = [TensorType (Some T) sz])
           \<and> (IsComparisonOp (kind (graph s ! n)) \<longrightarrow> graph s' = graph s))"
proof -
  from assms(4) have neg: "ScalarTypeToONNXType T < 0" by simp
  note u = UpdateScalarTypeForInputs_not_supported [OF neg assms(1), of conv]
  from Infer_rule [OF assms(3)] obtain st sz where out: "outputs (graph s ! n) = [TensorType st sz]"
    by blast
  note o = UpdateScalarTypeForOutput_single [OF assms(1) out, of T]
  show ?thesis
  proof (cases "IsComparisonOp (kind (graph s ! n))")
    case False
    with assms(2) have std: "IsStandardOp (kind (graph s ! n))"
      by (simp add: IsImplicitCastSupported_def IsStandardOp_def IsComparisonOp_def)
    define s' where "s' = \<lparr>graph = (graph s)[n := (graph s ! n)\<lparr>outputs := [TensorType (Some T) sz]\<rparr>],
      warnings = warnings s @ w1 @ [NotSupported T (kind (graph s ! n))],
      inferred = inferred s @ [(n, T)]\<rparr>"
    have v: "visit promoteTypes conv s n = Inr ([], s')"
      using assms(1,2,3) u o False
      by (simp add: visit_def node_at_def s'_def)
    have "length (graph s') = length (graph s)
           \<and> inputs (graph s' ! n) = inputs (graph s ! n)
           \<and> (\<forall>j. j \<noteq> n \<longrightarrow> graph s' ! j = graph s ! j)
           \<and> warnings s' = warnings s @ w1 @ [NotSupported T (kind (graph s ! n))]
           \<and> outputs (graph s' ! n) = [TensorType (Some T) sz]"
      using assms(1) by (simp add: s'_def)
    with u v out False show ?thesis by blast
  next
    case True
    define s' where "s' = \<lparr>graph = graph s,
      warnings = warnings s @ w1 @ [NotSupported T (kind (graph s ! n))],
      inferred = inferred s @ [(n, T)]\<rparr>"
    have v: "visit promoteTypes conv s n = Inr ([], s')"
      using assms(1,2,3) u True
      by (simp add: visit_def node_at_def s'_def)
    have "length (graph s') = length (graph s)
           \<and> inputs (graph s' ! n) = inputs (graph s ! n)
           \<and> (\<forall>j. j \<noteq> n \<longrightarrow> graph s' ! j = graph s ! j)
           \<and> warnings s' = warnings s @ w1 @ [NotSupported T (kind (graph s ! n))]
           \<and> graph s' = graph s"
      by (simp add: s'_def)
    moreover from True have "\<not> IsStandardOp (kind (graph s ! n))"
      using standard_not_comparison by blast
    ultimately show ?thesis using u v out by blast
  qed
qed

theorem unsupported_type_skips_inputs_witness:
  "InferExpectedScalarType promote_rank bfloat_graph 1
       = Inr (Some kBFloat16, [TypesMismatch onnx_Add kBFloat16])
   \<and> ScalarTypeToONNXType kBFloat16 = - 1
   \<and> visit promote_rank conv_keep \<lparr>graph = bfloat_graph, warnings = [], inferred = []\<rparr> 1
       = Inr ([], \<lparr>graph = bfloat_graph[1 := mk_node onnx_Add [(0, 0), (0, 1)] [TensorType (Some kBFloat16) None] []],
                   warnings = [TypesMismatch onnx_Add kBFloat16, NotSupported kBFloat16 onnx_Add],
                   inferred = [(1, kBFloat16)]\<rparr>)
   \<and> IsComparisonOp (kind (bfloat_greater_graph ! 1))
   \<and> InferExpectedScalarType promote_rank bfloat_greater_graph 1 = Inr (Some kBFloat16, [])
   \<and> UpdateScalarTypeForInputs conv_keep bfloat_greater_graph 1 kBFloat16
       = Inr (bfloat_greater_graph, [], [NotSupported kBFloat16 onnx_Greater])
   \<and> visit promote_rank conv_keep \<lparr>graph = bfloat_greater_graph, warnings = [], inferred = []\<rparr> 1
       = Inr ([], \<lparr>graph = bfloat_greater_graph,
                   warnings = [NotSupported kBFloat16 onnx_Greater],
                   inferred = [(1, kBFloat16)]\<rparr>)"
proof -
  let ?s = "\<lparr>graph = bfloat_graph, warnings = [], inferred = []\<rparr>"
  have h1: "1 < length (graph ?s)" by code_simp
  have h2: "IsImplicitCastSupported (kind (graph ?s ! 1))" by code_simp
  have h3: "InferExpectedScalarType promote_rank (graph ?s) 1
       = Inr (Some kBFloat16, [TypesMismatch onnx_Add kBFloat16])" by code_simp
  have h4: "ScalarTypeToONNXType kBFloat16 = - 1" by code_simp
  have v: "visit promote_rank conv_keep ?s 1
       = Inr ([], \<lparr>graph = bfloat_graph[1 := mk_node onnx_Add [(0, 0), (0, 1)] [TensorType (Some kBFloat16) None] []],
                   warnings = [TypesMismatch onnx_Add kBFloat16, NotSupported kBFloat16 onnx_Add],
                   inferred = [(1, kBFloat16)]\<rparr>)" by code_simp
  let ?t = "\<lparr>graph = bfloat_greater_graph, warnings = [], inferred = []\<rparr>"
  have c1: "1 < length (graph ?t)" by code_simp
  have c2: "IsImplicitCastSupported (kind (graph ?t ! 1))" by code_simp
  have c2': "IsComparisonOp (kind (bfloat_greater_graph ! 1))" by code_simp
  have c3: "InferExpectedScalarType promote_rank (graph ?t) 1 = Inr (Some kBFloat16, [])"
    by code_simp
  have k: "kind (bfloat_greater_graph ! 1) = onnx_Greater" by code_simp
  have w: "visit promote_rank conv_keep ?t 1
       = Inr ([], \<lparr>graph = bfloat_greater_graph,
                   warnings = [NotSupported kBFloat16 onnx_Greater],
                   inferred = [(1, kBFloat16)]\<rparr>)" by code_simp
  from unsupported_type_skips_inputs [OF c1 c2 c3 h4, of conv_keep] k
  have u: "UpdateScalarTypeForInputs conv_keep bfloat_greater_graph 1 kBFloat16
       = Inr (bfloat_greater_graph, [], [NotSupported kBFloat16 onnx_Greater])"
    by simp
  from unsupported_type_skips_inputs [OF h1 h2 h3 h4, of conv_keep] h3 h4 v c2' c3 u w
  show ?thesis by simp
qed

subsection \<open>PassDriver\<close>


lemma state_of_simps [simp]: "state_of (Inl e) = Inl e" "state_of (Inr (b, s)) = Inr s"
  by (simp_all add: state_of_def)

lemma bindE_assoc: "bindE (bindE m f) g = bindE m (\<lambda>x. bindE (f x) g)"
  by (cases m) simp_all

lemma visit_all_append:
  "visit_all p c (xs @ ys) s = bindE (visit_all p c xs s) (visit_all p c ys)"
proof (induction xs arbitrary: s)
  case Nil
  show ?case by simp
next
  case (Cons x xs)
  show ?case
  proof (cases "visit p c s x")
    case (Inl e)
    then show ?thesis by simp
  next
    case (Inr r)
    with Cons show ?thesis by simp
  qed
qed

lemma state_of_driver:
  "state_of (ImplicitCastForONNX p c d block s) = visit_all p c (visit_order block) s"
  "state_of (visit_nodes p c d block s) = visit_all p c (visit_order block) s"
  "state_of (visit_blocks p c d subs s) = visit_all p c (visit_order_blocks subs) s"
proof (induction p c d block s and p c d block s and p c d subs s
    rule: ImplicitCastForONNX_visit_nodes_visit_blocks.induct)
  case (1 p c d block s)
  then show ?case
    by (cases "visit_nodes p c d block s") (auto simp: state_of_def split: prod.splits)
next
  case (2 p c d s)
  show ?case by simp
next
  case (3 p c d n subs rest s)
  show ?case
  proof (cases "visit_blocks p c d subs s")
    case (Inl e)
    with 3(1) have "visit_all p c (visit_order_blocks subs) s = Inl e" by simp
    with Inl show ?thesis by (simp add: visit_all_append)
  next
    case b: (Inr r1)
    obtain subs' s1 where r1: "r1 = (subs', s1)" by (cases r1)
    from b r1 3(1) have va: "visit_all p c (visit_order_blocks subs) s = Inr s1" by simp
    show ?thesis
    proof (cases "visit p c s1 n")
      case (Inl e)
      with b r1 va show ?thesis by (simp add: visit_all_append)
    next
      case v: (Inr r2)
      obtain ins s2 where r2: "r2 = (ins, s2)" by (cases r2)
      have ih: "state_of (visit_nodes p c d rest s2) = visit_all p c (visit_order rest) s2"
        by (rule 3(2))
      show ?thesis
      proof (cases "visit_nodes p c d rest s2")
        case (Inl e)
        with ih have "visit_all p c (visit_order rest) s2 = Inl e" by simp
        with Inl b r1 v r2 va show ?thesis by (simp add: visit_all_append)
      next
        case (Inr r3)
        obtain rest' s3 where r3: "r3 = (rest', s3)" by (cases r3)
        with Inr ih have "visit_all p c (visit_order rest) s2 = Inr s3" by simp
        with r3 Inr b r1 v r2 va show ?thesis by (simp add: visit_all_append)
      qed
    qed
  qed
next
  case (4 p c d s)
  show ?case by simp
next
  case (5 p c d sub subs s)
  show ?case
  proof (cases "ImplicitCastForONNX p c d sub s")
    case (Inl e)
    with 5(1) have "visit_all p c (visit_order sub) s = Inl e"
      by (simp del: ImplicitCastForONNX.simps)
    with Inl show ?thesis by (simp add: visit_all_append del: ImplicitCastForONNX.simps)
  next
    case b: (Inr r1)
    obtain sub' s1 where r1: "r1 = (sub', s1)" by (cases r1)
    from b r1 5(1) have va: "visit_all p c (visit_order sub) s = Inr s1"
      by (simp del: ImplicitCastForONNX.simps)
    have ih: "state_of (visit_blocks p c d subs s1) = visit_all p c (visit_order_blocks subs) s1"
      by (rule 5(2))
    show ?thesis
    proof (cases "visit_blocks p c d subs s1")
      case (Inl e)
      with ih have "visit_all p c (visit_order_blocks subs) s1 = Inl e" by simp
      with Inl b r1 va show ?thesis by (simp add: visit_all_append del: ImplicitCastForONNX.simps)
    next
      case (Inr r3)
      obtain subs' s3 where r3: "r3 = (subs', s3)" by (cases r3)
      with Inr ih have "visit_all p c (visit_order_blocks subs) s1 = Inr s3" by simp
      with r3 Inr b r1 va show ?thesis by (simp add: visit_all_append del: ImplicitCastForONNX.simps)
    qed
  qed
qed

lemma store_kept_refl: "store_kept g n g"
  by (simp add: store_kept_def)

lemma UpdateScalarTypeForInputs_frame:
  assumes "UpdateScalarTypeForInputs conv g n T = Inr (g1, ins, ws)"
  shows "n < length g \<and> store_kept g n g1 \<and> fresh_nodes (ScalarTypeToONNXType T) T g g1
           \<and> ins = [length g..<length g1]"
proof (cases "ScalarTypeToONNXType T < 0")
  case True
  from assms have n: "n < length g"
    by (auto simp: UpdateScalarTypeForInputs_def Let_def bindE_eq_Inr node_at_def split: if_splits)
  from UpdateScalarTypeForInputs_not_supported [OF True n, of conv] assms
  have "g1 = g" "ins = []" by simp_all
  moreover have "fresh_nodes (ScalarTypeToONNXType T) T g g"
    unfolding fresh_nodes_def by (intro allI impI) linarith
  ultimately show ?thesis using n by (simp add: store_kept_refl)
next
  case False
  then have "0 \<le> ScalarTypeToONNXType T" by simp
  from UpdateScalarTypeForInputs_inv [OF assms this] show ?thesis
    by (simp add: loop_inv_def)
qed

lemma UpdateScalarTypeForOutput_Inr:
  assumes "UpdateScalarTypeForOutput g n T = Inr g2"
  shows "n < length g \<and> (\<exists>st sz. outputs (g ! n) = [TensorType st sz]
           \<and> g2 = g[n := (g ! n)\<lparr>outputs := [TensorType (Some T) sz]\<rparr>])"
proof -
  from assms obtain oty ty where n: "n < length g" and o: "output_type (g ! n) = Inr oty"
    and c: "CreateProfiledTensorTypeWithScalarType oty T = Inr ty"
    and g2: "g2 = setType g (n, 0) ty"
    by (auto simp: UpdateScalarTypeForOutput_def bindE_eq_Inr node_at_def split: if_splits)
  from o have out: "outputs (g ! n) = [oty]"
    by (auto simp: output_type_def split: list.splits)
  from c obtain st sz where oty: "oty = TensorType st sz" and ty: "ty = TensorType (Some T) sz"
    by (cases oty) (auto simp: CreateProfiledTensorTypeWithScalarType_def)
  from g2 out oty ty n show ?thesis by (simp add: setType_def)
qed

lemma visit_cases:
  assumes "visit p c s n = Inr (ins, s')"
  shows "n < length (graph s) \<and>
    ((\<not> IsImplicitCastSupported (kind (graph s ! n)) \<and> ins = [] \<and> s' = s)
     \<or> (IsImplicitCastSupported (kind (graph s ! n))
          \<and> (\<exists>w1. InferExpectedScalarType p (graph s) n = Inr (None, w1) \<and> ins = []
                \<and> s' = s\<lparr>warnings := warnings s @ w1\<rparr>))
     \<or> (IsImplicitCastSupported (kind (graph s ! n))
          \<and> (\<exists>T w1 g1 w2. InferExpectedScalarType p (graph s) n = Inr (Some T, w1)
                \<and> UpdateScalarTypeForInputs c (graph s) n T = Inr (g1, ins, w2)
                \<and> (if IsComparisonOp (kind (graph s ! n)) then graph s' = g1
                    else UpdateScalarTypeForOutput g1 n T = Inr (graph s'))
                \<and> warnings s' = warnings s @ w1 @ w2
                \<and> inferred s' = inferred s @ [(n, T)])))"
proof -
  have n: "n < length (graph s)"
  proof (rule ccontr)
    assume "\<not> n < length (graph s)"
    then have "visit p c s n = Inl Dangling" by (simp add: visit_def node_at_def)
    with assms show False by simp
  qed
  then have nd: "node_at (graph s) n = Inr (graph s ! n)" by (simp add: node_at_def)
  show ?thesis
  proof (cases "IsImplicitCastSupported (kind (graph s ! n))")
    case False
    with assms nd n show ?thesis by (simp add: visit_def)
  next
    case sup: True
    with assms nd have "bindE (InferExpectedScalarType p (graph s) n) (\<lambda>(expected_scalar_type, w1).
           case expected_scalar_type of
             None \<Rightarrow> Inr ([], s\<lparr>warnings := warnings s @ w1\<rparr>)
           | Some st \<Rightarrow>
               bindE (UpdateScalarTypeForInputs c (graph s) n st) (\<lambda>(g1, ins, w2).
               bindE (if \<not> IsComparisonOp (kind (graph s ! n))
                      then UpdateScalarTypeForOutput g1 n st else Inr g1) (\<lambda>g2.
                 Inr (ins, \<lparr>graph = g2, warnings = warnings s @ w1 @ w2,
                            inferred = inferred s @ [(n, st)]\<rparr>)))) = Inr (ins, s')"
      by (simp add: visit_def)
    then obtain e w1 where inf: "InferExpectedScalarType p (graph s) n = Inr (e, w1)"
      and r: "(case e of
             None \<Rightarrow> Inr ([], s\<lparr>warnings := warnings s @ w1\<rparr>)
           | Some st \<Rightarrow>
               bindE (UpdateScalarTypeForInputs c (graph s) n st) (\<lambda>(g1, ins, w2).
               bindE (if \<not> IsComparisonOp (kind (graph s ! n))
                      then UpdateScalarTypeForOutput g1 n st else Inr g1) (\<lambda>g2.
                 Inr (ins, \<lparr>graph = g2, warnings = warnings s @ w1 @ w2,
                            inferred = inferred s @ [(n, st)]\<rparr>)))) = (Inr (ins, s') :: error + nat list \<times> PassState)"
      unfolding bindE_eq_Inr [of "InferExpectedScalarType p (graph s) n"] by auto
    show ?thesis
    proof (cases e)
      case None
      with r inf sup n show ?thesis by simp
    next
      case (Some T)
      with r obtain g1 ins1 w2 g2 where u: "UpdateScalarTypeForInputs c (graph s) n T = Inr (g1, ins1, w2)"
        and o: "(if \<not> IsComparisonOp (kind (graph s ! n))
                      then UpdateScalarTypeForOutput g1 n T else Inr g1) = Inr g2"
        and res: "ins = ins1" "s' = \<lparr>graph = g2, warnings = warnings s @ w1 @ w2,
                            inferred = inferred s @ [(n, T)]\<rparr>"
        by (auto simp: bindE_eq_Inr)
      from o res have "if IsComparisonOp (kind (graph s ! n)) then graph s' = g1
                    else UpdateScalarTypeForOutput g1 n T = Inr (graph s')"
        by (simp split: if_splits)
      with u res inf Some sup n show ?thesis by simp
    qed
  qed
qed

lemma kept_outputs_refl: "kept_outputs g g"
  by (simp add: kept_outputs_def)

lemma kept_outputs_trans:
  assumes 1: "kept_outputs g g'" and 2: "kept_outputs g' g''"
  shows "kept_outputs g g''"
proof -
  have "kind (g'' ! j) = kind (g ! j)
          \<and> (\<not> IsStandardOp (kind (g ! j)) \<longrightarrow> outputs (g'' ! j) = outputs (g ! j))"
    if j: "j < length g" for j
  proof -
    from j 1 have a: "kind (g' ! j) = kind (g ! j)"
      and b: "\<not> IsStandardOp (kind (g ! j)) \<longrightarrow> outputs (g' ! j) = outputs (g ! j)"
      and lt: "j < length g'"
      by (simp_all add: kept_outputs_def)
    from lt 2 have c: "kind (g'' ! j) = kind (g' ! j)"
      and d: "\<not> IsStandardOp (kind (g' ! j)) \<longrightarrow> outputs (g'' ! j) = outputs (g' ! j)"
      by (simp_all add: kept_outputs_def)
    from a b c d show ?thesis by simp
  qed
  moreover from 1 2 have "length g \<le> length g''" by (simp add: kept_outputs_def)
  ultimately show ?thesis by (simp add: kept_outputs_def)
qed

lemma store_kept_kept_outputs:
  assumes "store_kept g n g1"
  shows "kept_outputs g g1"
proof -
  have "kind (g1 ! j) = kind (g ! j) \<and> outputs (g1 ! j) = outputs (g ! j)" if "j < length g" for j
    using store_kept_old(1,2) [OF assms that] by simp
  with store_kept_length [OF assms] show ?thesis by (simp add: kept_outputs_def)
qed

lemma visit_kept_outputs:
  assumes "visit p c s n = Inr (ins, s')"
  shows "kept_outputs (graph s) (graph s')"
proof -
  from visit_cases [OF assms] have n: "n < length (graph s)" by simp
  from visit_cases [OF assms] consider
    "graph s' = graph s"
    | T g1 w2 where "IsImplicitCastSupported (kind (graph s ! n))"
      "UpdateScalarTypeForInputs c (graph s) n T = Inr (g1, ins, w2)"
      "if IsComparisonOp (kind (graph s ! n)) then graph s' = g1
                    else UpdateScalarTypeForOutput g1 n T = Inr (graph s')"
    by auto
  then show ?thesis
  proof cases
    case 1
    then show ?thesis by (simp add: kept_outputs_refl)
  next
    case 2
    from UpdateScalarTypeForInputs_frame [OF 2(2)] have sk: "store_kept (graph s) n g1" by simp
    note k1 = store_kept_kept_outputs [OF sk]
    show ?thesis
    proof (cases "IsComparisonOp (kind (graph s ! n))")
      case True
      with 2(3) k1 show ?thesis by simp
    next
      case False
      with 2(1) have std: "IsStandardOp (kind (graph s ! n))"
        by (simp add: IsImplicitCastSupported_def IsStandardOp_def IsComparisonOp_def)
      from False 2(3) have "UpdateScalarTypeForOutput g1 n T = Inr (graph s')" by simp
      from UpdateScalarTypeForOutput_Inr [OF this] obtain st sz where
        g2: "graph s' = g1[n := (g1 ! n)\<lparr>outputs := [TensorType (Some T) sz]\<rparr>]" and n1: "n < length g1"
        by blast
      from k1 n have kn: "kind (g1 ! n) = kind (graph s ! n)" by (simp add: kept_outputs_def)
      have "kept_outputs g1 (graph s')"
        unfolding kept_outputs_def g2 using std kn n1
        by (auto simp: nth_list_update)
      with k1 show ?thesis by (rule kept_outputs_trans)
    qed
  qed
qed

lemma visit_all_kept_outputs:
  "visit_all p c ns s = Inr s' \<Longrightarrow> kept_outputs (graph s) (graph s')"
proof (induction ns arbitrary: s)
  case Nil
  then show ?case by (simp add: kept_outputs_refl)
next
  case (Cons n ns)
  from Cons.prems obtain ins s1 where v: "visit p c s n = Inr (ins, s1)"
    and r: "visit_all p c ns s1 = Inr s'"
    by (auto simp: bindE_eq_Inr)
  from visit_kept_outputs [OF v] Cons.IH [OF r] show ?case by (rule kept_outputs_trans)
qed

lemma pass_visit_all:
  assumes "ScalarTypeAnalysisForONNX p c d block g = Inr (block', s')"
  shows "visit_all p c (visit_order block) \<lparr>graph = g, warnings = [], inferred = []\<rparr> = Inr s'"
  using state_of_driver(1) [of p c d block "\<lparr>graph = g, warnings = [], inferred = []\<rparr>"] assms
  by (simp add: ScalarTypeAnalysisForONNX_def del: ImplicitCastForONNX.simps)

text \<open>
  C3: for a COMPARISON node the inferred type is the promotion over the scalar bucket
  followed by the tensor bucket (unknown when both are empty, else the fold of the
  promotion of two types from the left, starting with the first element), and no warning
  is written; and the pass leaves the annotation of the output of every COMPARISON node
  of the graph as it was.
\<close>

theorem comparison_inference_and_output:
  "(InferExpectedScalarType promoteTypes g n = Inr (st, ws) \<and> IsComparisonOp (kind (g ! n))
      \<longrightarrow> st = (case typesFromScalars g (inputs (g ! n)) @ typesFromTensors g (inputs (g ! n)) of
                  [] \<Rightarrow> None
                | t # ts \<Rightarrow> Some (foldl promoteTypes t ts))
          \<and> ws = [])
   \<and> (ScalarTypeAnalysisForONNX promoteTypes conv dce block g = Inr (block', s')
        \<and> n < length g \<and> IsComparisonOp (kind (g ! n))
      \<longrightarrow> n < length (graph s') \<and> kind (graph s' ! n) = kind (g ! n)
          \<and> outputs (graph s' ! n) = outputs (g ! n))"
proof -
  have 1: "InferExpectedScalarType promoteTypes g n = Inr (st, ws) \<and> IsComparisonOp (kind (g ! n))
      \<longrightarrow> st = (case typesFromScalars g (inputs (g ! n)) @ typesFromTensors g (inputs (g ! n)) of
                  [] \<Rightarrow> None
                | t # ts \<Rightarrow> Some (foldl promoteTypes t ts))
          \<and> ws = []"
  proof (rule impI)
    assume a: "InferExpectedScalarType promoteTypes g n = Inr (st, ws) \<and> IsComparisonOp (kind (g ! n))"
    with Infer_rule [of promoteTypes g n "(st, ws)"] obtain ost where
      "(st, ws) = infer_rule promoteTypes g (g ! n) ost" by blast
    with a have "st = PromoteScalarTypes promoteTypes
                 (typesFromScalars g (inputs (g ! n)) @ typesFromTensors g (inputs (g ! n)))
          \<and> ws = []"
      by (simp add: infer_rule_def Let_def)
    then show "st = (case typesFromScalars g (inputs (g ! n)) @ typesFromTensors g (inputs (g ! n)) of
                  [] \<Rightarrow> None
                | t # ts \<Rightarrow> Some (foldl promoteTypes t ts))
          \<and> ws = []"
      by (cases "typesFromScalars g (inputs (g ! n)) @ typesFromTensors g (inputs (g ! n))") simp_all
  qed
  have 2: "ScalarTypeAnalysisForONNX promoteTypes conv dce block g = Inr (block', s')
        \<and> n < length g \<and> IsComparisonOp (kind (g ! n))
      \<longrightarrow> n < length (graph s') \<and> kind (graph s' ! n) = kind (g ! n)
          \<and> outputs (graph s' ! n) = outputs (g ! n)"
  proof (rule impI)
    assume a: "ScalarTypeAnalysisForONNX promoteTypes conv dce block g = Inr (block', s')
        \<and> n < length g \<and> IsComparisonOp (kind (g ! n))"
    then have "ScalarTypeAnalysisForONNX promoteTypes conv dce block g = Inr (block', s')" by simp
    from visit_all_kept_outputs [OF pass_visit_all [OF this]]
    have "kept_outputs g (graph s')" by simp
    moreover from a have "\<not> IsStandardOp (kind (g ! n))"
      using standard_not_comparison by blast
    ultimately show "n < length (graph s') \<and> kind (graph s' ! n) = kind (g ! n)
          \<and> outputs (graph s' ! n) = outputs (g ! n)"
      using a by (simp add: kept_outputs_def)
  qed
  from 1 2 show ?thesis by (rule conjI)
qed

theorem comparison_inference_and_output_witness:
  "InferExpectedScalarType promote_rank less_graph 2 = Inr (Some kDouble, [])
   \<and> IsComparisonOp (kind (less_graph ! 2))
   \<and> inputs (less_graph ! 2) = [(0, 0), (1, 0), (0, 1)]
   \<and> typesFromScalars less_graph (inputs (less_graph ! 2)) = [kInt]
   \<and> typesFromTensors less_graph (inputs (less_graph ! 2)) = [kFloat, kDouble]
   \<and> foldl promote_rank kInt [kFloat, kDouble] = kDouble
   \<and> (\<exists>block' s'. ScalarTypeAnalysisForONNX promote_rank conv_keep (sweep [2])
                      [BlockNode 1 [], BlockNode 2 []] less_graph = Inr (block', s')
         \<and> inputs (graph s' ! 2) = [(3, 0), (4, 0), (0, 1)]
         \<and> outputs (graph s' ! 2) = [TensorType (Some kBool) None])"
proof -
  have h1: "InferExpectedScalarType promote_rank less_graph 2 = Inr (Some kDouble, [])"
    by code_simp
  have h2: "IsComparisonOp (kind (less_graph ! 2))" by code_simp
  have h3: "typesFromScalars less_graph (inputs (less_graph ! 2)) = [kInt]" by code_simp
  have h4: "typesFromTensors less_graph (inputs (less_graph ! 2)) = [kFloat, kDouble]" by code_simp
  have h7: "inputs (less_graph ! 2) = [(0, 0), (1, 0), (0, 1)]" by code_simp
  have "case ScalarTypeAnalysisForONNX promote_rank conv_keep (sweep [2])
               [BlockNode 1 [], BlockNode 2 []] less_graph of
          Inr r \<Rightarrow> inputs (graph (snd r) ! 2) = [(3, 0), (4, 0), (0, 1)] | Inl e \<Rightarrow> False"
    by code_simp
  then obtain block' s' where run: "ScalarTypeAnalysisForONNX promote_rank conv_keep (sweep [2])
               [BlockNode 1 [], BlockNode 2 []] less_graph = Inr (block', s')"
    and i: "inputs (graph s' ! 2) = [(3, 0), (4, 0), (0, 1)]"
    by (auto split: sum.splits)
  have h5: "2 < length less_graph" by code_simp
  have h6: "outputs (less_graph ! 2) = [TensorType (Some kBool) None]" by code_simp
  note c = comparison_inference_and_output [of promote_rank less_graph 2 "Some kDouble" "[]"
      conv_keep "sweep [2]" "[BlockNode 1 [], BlockNode 2 []]" block' s']
  from c h1 h2 h3 h4 have f: "foldl promote_rank kInt [kFloat, kDouble] = kDouble" by simp
  from c h1 h2 h3 h4 h5 h6 h7 run i f
  show ?thesis by auto
qed

lemma upt_split: "a \<le> c \<Longrightarrow> c < b \<Longrightarrow> [a..<b] = [a..<c] @ c # [Suc c..<b]"
  by (metis le_add_diff_inverse less_imp_le_nat upt_add_eq_append upt_conv_Cons)

text \<open>
  C5: an input of the rewritten node whose producer is a constant is replaced, whether
  or not the stored element type of the constant is the target type already, by the
  output of a fresh constant node \<open>c\<close>: the node holds the literal converted to the target
  type, its output is annotated with the target type, and the input edge of the consumer
  points to it. The old constant stays in the store as it was. When the driver visits
  the consumer (its kind in the whitelist, the target type the inferred one), the block
  it returns has \<open>c\<close> before the consumer: the nodes that the rewriter has created for the
  consumer before \<open>c\<close>, then \<open>c\<close>, then the nodes it has created after \<open>c\<close> for the later
  inputs, then the consumer.
\<close>

theorem constant_input_replaced:
  assumes "UpdateScalarTypeForInputs conv g n T = Inr (g', ins, ws)"
    and "0 \<le> ScalarTypeToONNXType T"
    and "i < length (inputs (g ! n))"
    and "producer g (inputs (g ! n) ! i) = Inr m"
    and "kind m = onnx_Constant"
  shows "\<exists>val c. attr_t m ''value'' = Inr val
           \<and> inputs (g' ! n) ! i = (c, 0) \<and> length g \<le> c \<and> c < length g' \<and> c \<in> set ins
           \<and> kind (g' ! c) = onnx_Constant \<and> inputs (g' ! c) = []
           \<and> attributes (g' ! c) = [(''value'', TensorAttr (tensor_to conv val T))]
           \<and> outputs (g' ! c) = [TensorType (Some T) (Some (tensor_sizes val))]
           \<and> kind (g' ! fst (inputs (g ! n) ! i)) = onnx_Constant
           \<and> attributes (g' ! fst (inputs (g ! n) ! i)) = attributes m
           \<and> outputs (g' ! fst (inputs (g ! n) ! i)) = outputs m
           \<and> (\<forall>promoteTypes dce subs rest s subs' s1 w1 block' s'.
                visit_blocks promoteTypes conv dce subs s = Inr (subs', s1) \<and> graph s1 = g
                \<and> IsImplicitCastSupported (kind (g ! n))
                \<and> InferExpectedScalarType promoteTypes g n = Inr (Some T, w1)
                \<and> visit_nodes promoteTypes conv dce (BlockNode n subs # rest) s = Inr (block', s')
                \<longrightarrow> (\<exists>rest'. block' = map (\<lambda>j. BlockNode j []) [length g..<c] @ BlockNode c []
                        # map (\<lambda>j. BlockNode j []) [Suc c..<length g'] @ BlockNode n subs' # rest'))"
proof -
  from constant_input_store [OF assms] obtain val c where
    old: "attr_t m ''value'' = Inr val
           \<and> inputs (g' ! n) ! i = (c, 0) \<and> length g \<le> c \<and> c < length g' \<and> c \<in> set ins
           \<and> kind (g' ! c) = onnx_Constant \<and> inputs (g' ! c) = []
           \<and> attributes (g' ! c) = [(''value'', TensorAttr (tensor_to conv val T))]
           \<and> outputs (g' ! c) = [TensorType (Some T) (Some (tensor_sizes val))]
           \<and> kind (g' ! fst (inputs (g ! n) ! i)) = onnx_Constant
           \<and> attributes (g' ! fst (inputs (g ! n) ! i)) = attributes m
           \<and> outputs (g' ! fst (inputs (g ! n) ! i)) = outputs m"
    by blast
  then have c: "length g \<le> c" "c < length g'" by simp_all
  from UpdateScalarTypeForInputs_frame [OF assms(1)] have ins: "ins = [length g..<length g']"
    by simp
  have blk: "\<exists>rest'. block' = map (\<lambda>j. BlockNode j []) [length g..<c] @ BlockNode c []
                        # map (\<lambda>j. BlockNode j []) [Suc c..<length g'] @ BlockNode n subs' # rest'"
    if a: "visit_blocks promoteTypes conv dce subs s = Inr (subs', s1) \<and> graph s1 = g
                \<and> IsImplicitCastSupported (kind (g ! n))
                \<and> InferExpectedScalarType promoteTypes g n = Inr (Some T, w1)
                \<and> visit_nodes promoteTypes conv dce (BlockNode n subs # rest) s = Inr (block', s')"
    for promoteTypes dce subs rest s subs' s1 w1 block' s'
  proof -
    from a have r: "visit_nodes promoteTypes conv dce (BlockNode n subs # rest) s = Inr (block', s')"
      and b: "visit_blocks promoteTypes conv dce subs s = Inr (subs', s1)"
      and k: "IsImplicitCastSupported (kind (graph s1 ! n))"
      and i: "InferExpectedScalarType promoteTypes (graph s1) n = Inr (Some T, w1)"
      and u: "UpdateScalarTypeForInputs conv (graph s1) n T = Inr (g', ins, ws)"
      using assms(1) by (simp_all del: visit_nodes.simps visit_blocks.simps)
    from r b obtain ins' s2 rest' where
      v: "visit promoteTypes conv s1 n = Inr (ins', s2)"
      and b': "block' = map (\<lambda>j. BlockNode j []) ins' @ BlockNode n subs' # rest'"
      by (auto simp: bindE_eq_Inr)
    from visit_cases [OF v] k i u have "ins' = ins" by auto
    with b' show ?thesis unfolding ins upt_split [OF c] by simp
  qed
  from old blk show ?thesis by blast
qed

theorem constant_input_replaced_witness:
  "\<exists>g' ins ws val c block' s'.
     UpdateScalarTypeForInputs conv_keep example_graph 6 kInt = Inr (g', ins, ws)
     \<and> producer example_graph (inputs (example_graph ! 6) ! 1) = Inr (example_graph ! 1)
     \<and> attr_t (example_graph ! 1) ''value'' = Inr val \<and> scalar_type val = kInt
     \<and> inputs (g' ! 6) ! 1 = (c, 0) \<and> length example_graph \<le> c \<and> c \<in> set ins
     \<and> kind (g' ! c) = onnx_Constant
     \<and> attributes (g' ! c) = [(''value'', TensorAttr (tensor_to conv_keep val kInt))]
     \<and> outputs (g' ! c) = [TensorType (Some kInt) (Some (tensor_sizes val))]
     \<and> kind (g' ! 1) = onnx_Constant
     \<and> c = 10 \<and> length g' = 11
     \<and> IsImplicitCastSupported (kind (example_graph ! 6))
     \<and> InferExpectedScalarType promote_rank example_graph 6 = Inr (Some kInt, [])
     \<and> visit_nodes promote_rank conv_keep (sweep []) [BlockNode 6 [], BlockNode 7 []]
          \<lparr>graph = example_graph, warnings = [], inferred = []\<rparr> = Inr (block', s')
     \<and> block' = [BlockNode 10 [], BlockNode 6 [], BlockNode 11 [], BlockNode 7 []]"
proof -
  let ?s = "\<lparr>graph = example_graph, warnings = [], inferred = []\<rparr>"
  have "case UpdateScalarTypeForInputs conv_keep example_graph 6 kInt of
          Inr r \<Rightarrow> length (fst r) = 11 \<and> inputs (fst r ! 6) ! 1 = (10, 0) | Inl e \<Rightarrow> False"
    by code_simp
  then obtain g' ins ws where
    run: "UpdateScalarTypeForInputs conv_keep example_graph 6 kInt = Inr (g', ins, ws)"
    and len: "length g' = 11" and inp: "inputs (g' ! 6) ! 1 = (10, 0)"
    by (auto split: sum.splits)
  have h2: "0 \<le> ScalarTypeToONNXType kInt" by code_simp
  have h3: "1 < length (inputs (example_graph ! 6))" by code_simp
  have h4: "producer example_graph (inputs (example_graph ! 6) ! 1) = Inr (example_graph ! 1)"
    by code_simp
  have h5: "kind (example_graph ! 1) = onnx_Constant" by code_simp
  have h6: "attr_t (example_graph ! 1) ''value'' = Inr (literal kInt 3)" by code_simp
  have h7: "scalar_type (literal kInt 3) = kInt" by code_simp
  have h8: "fst (inputs (example_graph ! 6) ! 1) = 1" by code_simp
  have h9: "length example_graph = 10" by code_simp
  have k: "IsImplicitCastSupported (kind (example_graph ! 6))" by code_simp
  have inf: "InferExpectedScalarType promote_rank example_graph 6 = Inr (Some kInt, [])"
    by code_simp
  have "case visit_nodes promote_rank conv_keep (sweep []) [BlockNode 6 [], BlockNode 7 []] ?s of
          Inr r \<Rightarrow> fst r = [BlockNode 10 [], BlockNode 6 [], BlockNode 11 [], BlockNode 7 []]
        | Inl e \<Rightarrow> False"
    by code_simp
  then obtain block' s' where
    vn: "visit_nodes promote_rank conv_keep (sweep []) [BlockNode 6 [], BlockNode 7 []] ?s
           = Inr (block', s')"
    and blk: "block' = [BlockNode 10 [], BlockNode 6 [], BlockNode 11 [], BlockNode 7 []]"
    by (auto split: sum.splits simp del: visit_nodes.simps)
  have vb: "visit_blocks promote_rank conv_keep (sweep []) [] ?s = Inr ([], ?s)" by simp
  have gs: "graph ?s = example_graph" by simp
  from constant_input_replaced [OF run h2 h3 h4 h5] obtain val c where
    f1: "attr_t (example_graph ! 1) ''value'' = Inr val"
    and f2: "inputs (g' ! 6) ! 1 = (c, 0)"
    and f3: "length example_graph \<le> c" and f4: "c < length g'" and f5: "c \<in> set ins"
    and f6: "kind (g' ! c) = onnx_Constant" and f7: "inputs (g' ! c) = []"
    and f8: "attributes (g' ! c) = [(''value'', TensorAttr (tensor_to conv_keep val kInt))]"
    and f9: "outputs (g' ! c) = [TensorType (Some kInt) (Some (tensor_sizes val))]"
    and f10: "kind (g' ! fst (inputs (example_graph ! 6) ! 1)) = onnx_Constant"
    and place: "\<forall>promoteTypes dce subs rest s subs' s1 w1 block' s'.
                visit_blocks promoteTypes conv_keep dce subs s = Inr (subs', s1)
                \<and> graph s1 = example_graph
                \<and> IsImplicitCastSupported (kind (example_graph ! 6))
                \<and> InferExpectedScalarType promoteTypes example_graph 6 = Inr (Some kInt, w1)
                \<and> visit_nodes promoteTypes conv_keep dce (BlockNode 6 subs # rest) s = Inr (block', s')
                \<longrightarrow> (\<exists>rest'. block' = map (\<lambda>j. BlockNode j []) [length example_graph..<c] @ BlockNode c []
                        # map (\<lambda>j. BlockNode j []) [Suc c..<length g'] @ BlockNode 6 subs' # rest')"
    by (elim exE conjE)
  from f2 inp have c: "c = 10" by simp
  from f1 h6 have val: "val = literal kInt 3" by simp
  from place vb gs k inf vn
  have "\<exists>rest'. block' = map (\<lambda>j. BlockNode j []) [length example_graph..<c] @ BlockNode c []
                        # map (\<lambda>j. BlockNode j []) [Suc c..<length g'] @ BlockNode 6 [] # rest'"
    by blast
  with c h9 len have "\<exists>rest'. block' = BlockNode 10 [] # BlockNode 6 [] # rest'" by simp
  from f10 h8 have old: "kind (g' ! 1) = onnx_Constant" by simp
  from run h4 f1 h7 f2 f3 f5 f6 f8 f9 old c len k inf vn blk val show ?thesis by blast
qed

text \<open>
  C6: an input of the rewritten node whose producer is not a constant and whose
  annotation has an element type other than the target type is replaced by the output of
  a fresh Cast node \<open>c\<close>: the input is its only operand, its attribute \<open>to\<close> is the code of
  the target type, its output is annotated with the target type, and the input edge of
  the consumer points to it. When the driver visits the consumer (its kind in the
  whitelist, the target type the inferred one), the block it returns has \<open>c\<close> before the
  consumer: the nodes that the rewriter has created for the consumer before \<open>c\<close>, then
  \<open>c\<close>, then the nodes it has created after \<open>c\<close> for the later inputs, then the consumer.
  An input whose annotation has the target type or no element type is left as it is.
\<close>

theorem tensor_input_cast:
  assumes "UpdateScalarTypeForInputs conv g n T = Inr (g', ins, ws)"
    and "0 \<le> ScalarTypeToONNXType T"
    and "i < length (inputs (g ! n))"
    and "producer g (inputs (g ! n) ! i) = Inr m"
    and "kind m \<noteq> onnx_Constant"
    and "value_type g (inputs (g ! n) ! i) = Inr (TensorType st sz)"
  shows "(st \<noteq> None \<and> st \<noteq> Some T \<longrightarrow>
            (\<exists>c. inputs (g' ! n) ! i = (c, 0) \<and> length g \<le> c \<and> c < length g' \<and> c \<in> set ins
               \<and> kind (g' ! c) = onnx_Cast \<and> inputs (g' ! c) = [inputs (g ! n) ! i]
               \<and> attributes (g' ! c) = [(''to'', IntAttr (ScalarTypeToONNXType T))]
               \<and> outputs (g' ! c) = [TensorType (Some T) sz]
               \<and> (\<forall>promoteTypes dce subs rest s subs' s1 w1 block' s'.
                    visit_blocks promoteTypes conv dce subs s = Inr (subs', s1) \<and> graph s1 = g
                    \<and> IsImplicitCastSupported (kind (g ! n))
                    \<and> InferExpectedScalarType promoteTypes g n = Inr (Some T, w1)
                    \<and> visit_nodes promoteTypes conv dce (BlockNode n subs # rest) s = Inr (block', s')
                    \<longrightarrow> (\<exists>rest'. block' = map (\<lambda>j. BlockNode j []) [length g..<c] @ BlockNode c []
                            # map (\<lambda>j. BlockNode j []) [Suc c..<length g'] @ BlockNode n subs' # rest'))))
       \<and> (st = None \<or> st = Some T \<longrightarrow> inputs (g' ! n) ! i = inputs (g ! n) ! i)"
proof -
  note old = tensor_input_store [OF assms]
  have 1: "\<exists>c. inputs (g' ! n) ! i = (c, 0) \<and> length g \<le> c \<and> c < length g' \<and> c \<in> set ins
               \<and> kind (g' ! c) = onnx_Cast \<and> inputs (g' ! c) = [inputs (g ! n) ! i]
               \<and> attributes (g' ! c) = [(''to'', IntAttr (ScalarTypeToONNXType T))]
               \<and> outputs (g' ! c) = [TensorType (Some T) sz]
               \<and> (\<forall>promoteTypes dce subs rest s subs' s1 w1 block' s'.
                    visit_blocks promoteTypes conv dce subs s = Inr (subs', s1) \<and> graph s1 = g
                    \<and> IsImplicitCastSupported (kind (g ! n))
                    \<and> InferExpectedScalarType promoteTypes g n = Inr (Some T, w1)
                    \<and> visit_nodes promoteTypes conv dce (BlockNode n subs # rest) s = Inr (block', s')
                    \<longrightarrow> (\<exists>rest'. block' = map (\<lambda>j. BlockNode j []) [length g..<c] @ BlockNode c []
                            # map (\<lambda>j. BlockNode j []) [Suc c..<length g'] @ BlockNode n subs' # rest'))"
    if st: "st \<noteq> None \<and> st \<noteq> Some T"
  proof -
    from old st obtain c where
      o: "inputs (g' ! n) ! i = (c, 0) \<and> length g \<le> c \<and> c < length g' \<and> c \<in> set ins
               \<and> kind (g' ! c) = onnx_Cast \<and> inputs (g' ! c) = [inputs (g ! n) ! i]
               \<and> attributes (g' ! c) = [(''to'', IntAttr (ScalarTypeToONNXType T))]
               \<and> outputs (g' ! c) = [TensorType (Some T) sz]"
      by blast
    then have c: "length g \<le> c" "c < length g'" by simp_all
  from UpdateScalarTypeForInputs_frame [OF assms(1)] have ins: "ins = [length g..<length g']"
    by simp
  have blk: "\<exists>rest'. block' = map (\<lambda>j. BlockNode j []) [length g..<c] @ BlockNode c []
                        # map (\<lambda>j. BlockNode j []) [Suc c..<length g'] @ BlockNode n subs' # rest'"
    if a: "visit_blocks promoteTypes conv dce subs s = Inr (subs', s1) \<and> graph s1 = g
                \<and> IsImplicitCastSupported (kind (g ! n))
                \<and> InferExpectedScalarType promoteTypes g n = Inr (Some T, w1)
                \<and> visit_nodes promoteTypes conv dce (BlockNode n subs # rest) s = Inr (block', s')"
    for promoteTypes dce subs rest s subs' s1 w1 block' s'
  proof -
    from a have r: "visit_nodes promoteTypes conv dce (BlockNode n subs # rest) s = Inr (block', s')"
      and b: "visit_blocks promoteTypes conv dce subs s = Inr (subs', s1)"
      and k: "IsImplicitCastSupported (kind (graph s1 ! n))"
      and i: "InferExpectedScalarType promoteTypes (graph s1) n = Inr (Some T, w1)"
      and u: "UpdateScalarTypeForInputs conv (graph s1) n T = Inr (g', ins, ws)"
      using assms(1) by (simp_all del: visit_nodes.simps visit_blocks.simps)
    from r b obtain ins' s2 rest' where
      v: "visit promoteTypes conv s1 n = Inr (ins', s2)"
      and b': "block' = map (\<lambda>j. BlockNode j []) ins' @ BlockNode n subs' # rest'"
      by (auto simp: bindE_eq_Inr)
    from visit_cases [OF v] k i u have "ins' = ins" by auto
    with b' show ?thesis unfolding ins upt_split [OF c] by simp
  qed
    from o blk show ?thesis by blast
  qed
  from old have 2: "st = None \<or> st = Some T \<longrightarrow> inputs (g' ! n) ! i = inputs (g ! n) ! i"
    by simp
  from 1 2 show ?thesis by blast
qed

theorem tensor_input_cast_witness:
  "\<exists>g' ins ws c block' s'.
     UpdateScalarTypeForInputs conv_keep example_graph 5 kFloat = Inr (g', ins, ws)
     \<and> value_type example_graph (inputs (example_graph ! 5) ! 1) = Inr (TensorType (Some kInt) None)
     \<and> inputs (g' ! 5) ! 1 = (c, 0) \<and> length example_graph \<le> c \<and> c \<in> set ins
     \<and> kind (g' ! c) = onnx_Cast \<and> inputs (g' ! c) = [(0, 1)]
     \<and> attributes (g' ! c) = [(''to'', IntAttr 1)]
     \<and> outputs (g' ! c) = [TensorType (Some kFloat) None]
     \<and> value_type example_graph (inputs (example_graph ! 5) ! 0) = Inr (TensorType (Some kFloat) None)
     \<and> inputs (g' ! 5) ! 0 = (0, 0)
     \<and> c = 10 \<and> length g' = 11
     \<and> IsImplicitCastSupported (kind (example_graph ! 5))
     \<and> InferExpectedScalarType promote_rank example_graph 5
          = Inr (Some kFloat, [TypesMismatch onnx_Add kFloat])
     \<and> visit_nodes promote_rank conv_keep (sweep []) [BlockNode 5 [], BlockNode 8 []]
          \<lparr>graph = example_graph, warnings = [], inferred = []\<rparr> = Inr (block', s')
     \<and> block' = [BlockNode 10 [], BlockNode 5 [], BlockNode 8 []]"
proof -
  let ?s = "\<lparr>graph = example_graph, warnings = [], inferred = []\<rparr>"
  have "case UpdateScalarTypeForInputs conv_keep example_graph 5 kFloat of
          Inr r \<Rightarrow> length (fst r) = 11 \<and> inputs (fst r ! 5) ! 1 = (10, 0) | Inl e \<Rightarrow> False"
    by code_simp
  then obtain g' ins ws where
    run: "UpdateScalarTypeForInputs conv_keep example_graph 5 kFloat = Inr (g', ins, ws)"
    and len: "length g' = 11" and inp: "inputs (g' ! 5) ! 1 = (10, 0)"
    by (auto split: sum.splits)
  have h2: "0 \<le> ScalarTypeToONNXType kFloat" by code_simp
  have c: "ScalarTypeToONNXType kFloat = 1" by code_simp
  have h3: "1 < length (inputs (example_graph ! 5))" by code_simp
  have h3': "0 < length (inputs (example_graph ! 5))" by code_simp
  have h4: "producer example_graph (inputs (example_graph ! 5) ! 1) = Inr (example_graph ! 0)"
    by code_simp
  have h4': "producer example_graph (inputs (example_graph ! 5) ! 0) = Inr (example_graph ! 0)"
    by code_simp
  have h5: "kind (example_graph ! 0) \<noteq> onnx_Constant" by code_simp
  have h6: "value_type example_graph (inputs (example_graph ! 5) ! 1) = Inr (TensorType (Some kInt) None)"
    by code_simp
  have h6': "value_type example_graph (inputs (example_graph ! 5) ! 0) = Inr (TensorType (Some kFloat) None)"
    by code_simp
  have h7: "inputs (example_graph ! 5) ! 1 = (0, 1)" by code_simp
  have h7': "inputs (example_graph ! 5) ! 0 = (0, 0)" by code_simp
  have h9: "length example_graph = 10" by code_simp
  have k: "IsImplicitCastSupported (kind (example_graph ! 5))" by code_simp
  have inf: "InferExpectedScalarType promote_rank example_graph 5
               = Inr (Some kFloat, [TypesMismatch onnx_Add kFloat])"
    by code_simp
  have "case visit_nodes promote_rank conv_keep (sweep []) [BlockNode 5 [], BlockNode 8 []] ?s of
          Inr r \<Rightarrow> fst r = [BlockNode 10 [], BlockNode 5 [], BlockNode 8 []]
        | Inl e \<Rightarrow> False"
    by code_simp
  then obtain block' s' where
    vn: "visit_nodes promote_rank conv_keep (sweep []) [BlockNode 5 [], BlockNode 8 []] ?s
           = Inr (block', s')"
    and blk: "block' = [BlockNode 10 [], BlockNode 5 [], BlockNode 8 []]"
    by (auto split: sum.splits simp del: visit_nodes.simps)
  have vb: "visit_blocks promote_rank conv_keep (sweep []) [] ?s = Inr ([], ?s)" by simp
  have gs: "graph ?s = example_graph" by simp
  have ne: "Some kInt \<noteq> None \<and> Some kInt \<noteq> Some kFloat" by simp
  from tensor_input_cast [OF run h2 h3 h4 h5 h6] ne
  have "\<exists>c. inputs (g' ! 5) ! 1 = (c, 0) \<and> length example_graph \<le> c \<and> c < length g' \<and> c \<in> set ins
               \<and> kind (g' ! c) = onnx_Cast \<and> inputs (g' ! c) = [inputs (example_graph ! 5) ! 1]
               \<and> attributes (g' ! c) = [(''to'', IntAttr (ScalarTypeToONNXType kFloat))]
               \<and> outputs (g' ! c) = [TensorType (Some kFloat) None]
               \<and> (\<forall>promoteTypes dce subs rest s subs' s1 w1 block' s'.
                    visit_blocks promoteTypes conv_keep dce subs s = Inr (subs', s1)
                    \<and> graph s1 = example_graph
                    \<and> IsImplicitCastSupported (kind (example_graph ! 5))
                    \<and> InferExpectedScalarType promoteTypes example_graph 5 = Inr (Some kFloat, w1)
                    \<and> visit_nodes promoteTypes conv_keep dce (BlockNode 5 subs # rest) s = Inr (block', s')
                    \<longrightarrow> (\<exists>rest'. block' = map (\<lambda>j. BlockNode j []) [length example_graph..<c] @ BlockNode c []
                            # map (\<lambda>j. BlockNode j []) [Suc c..<length g'] @ BlockNode 5 subs' # rest'))"
    by (rule mp [OF conjunct1])
  then obtain c' where
    f2: "inputs (g' ! 5) ! 1 = (c', 0)"
    and f3: "length example_graph \<le> c'" and f4: "c' < length g'" and f5: "c' \<in> set ins"
    and f6: "kind (g' ! c') = onnx_Cast" and f7: "inputs (g' ! c') = [inputs (example_graph ! 5) ! 1]"
    and f8: "attributes (g' ! c') = [(''to'', IntAttr (ScalarTypeToONNXType kFloat))]"
    and f9: "outputs (g' ! c') = [TensorType (Some kFloat) None]"
    and place: "\<forall>promoteTypes dce subs rest s subs' s1 w1 block' s'.
                    visit_blocks promoteTypes conv_keep dce subs s = Inr (subs', s1)
                    \<and> graph s1 = example_graph
                    \<and> IsImplicitCastSupported (kind (example_graph ! 5))
                    \<and> InferExpectedScalarType promoteTypes example_graph 5 = Inr (Some kFloat, w1)
                    \<and> visit_nodes promoteTypes conv_keep dce (BlockNode 5 subs # rest) s = Inr (block', s')
                    \<longrightarrow> (\<exists>rest'. block' = map (\<lambda>j. BlockNode j []) [length example_graph..<c'] @ BlockNode c' []
                            # map (\<lambda>j. BlockNode j []) [Suc c'..<length g'] @ BlockNode 5 subs' # rest')"
    by (elim exE conjE)
  from f2 inp have c': "c' = 10" by simp
  from place vb gs k inf vn
  have "\<exists>rest'. block' = map (\<lambda>j. BlockNode j []) [length example_graph..<c'] @ BlockNode c' []
                        # map (\<lambda>j. BlockNode j []) [Suc c'..<length g'] @ BlockNode 5 [] # rest'"
    by blast
  with c' h9 len have "\<exists>rest'. block' = BlockNode 10 [] # BlockNode 5 [] # rest'" by simp
  from f7 h7 have i7: "inputs (g' ! c') = [(0, 1)]" by simp
  from f8 c have i8: "attributes (g' ! c') = [(''to'', IntAttr 1)]" by simp
  from tensor_input_cast [OF run h2 h3' h4' h5 h6'] h7'
  have i0: "inputs (g' ! 5) ! 0 = (0, 0)" by simp
  from run h6 f2 f3 f5 f6 i7 i8 f9 h6' i0 c' len k inf vn blk show ?thesis by blast
qed

subsection \<open>Totality of the pass\<close>


lemma tensor_input_iff:
  "tensor_input g v \<longleftrightarrow>
     (\<exists>m st sz. producer g v = Inr m \<and> outputs m ! snd v = TensorType st sz
        \<and> (kind m = onnx_Constant \<longrightarrow> (\<exists>val. attr_t m ''value'' = Inr val)))"
proof (cases "producer g v")
  case (Inl e)
  then show ?thesis by (simp add: tensor_input_def)
next
  case (Inr m)
  have a: "is_tensor ty \<longleftrightarrow> (\<exists>st sz. ty = TensorType st sz)" for ty
    by (cases ty) (simp_all add: is_tensor_def)
  have b: "(case x of Inr val \<Rightarrow> True | Inl e \<Rightarrow> False) \<longleftrightarrow> (\<exists>val. x = Inr val)" for x :: "error + Tensor"
    by (cases x) simp_all
  from Inr show ?thesis by (simp add: tensor_input_def a b)
qed

lemma gather_input_iff:
  "gather_input g v \<longleftrightarrow>
     (\<exists>m. producer g v = Inr m
        \<and> (kind m = onnx_Gather \<longrightarrow> (\<exists>v0 m0. input0 m = Inr v0 \<and> producer g v0 = Inr m0)))"
proof (cases "producer g v")
  case (Inl e)
  then show ?thesis by (simp add: gather_input_def)
next
  case (Inr m)
  then show ?thesis
    by (cases "input0 m"; cases "producer g (projr (input0 m))") (auto simp: gather_input_def)
qed

lemma collect_input_total:
  assumes "tensor_input g v" and "gather_input g v"
  shows "\<exists>acc'. collect_input g acc v = Inr acc'"
proof -
  from assms(1) obtain m st sz where m: "producer g v = Inr m"
    and ty: "outputs m ! snd v = TensorType st sz"
    and c: "kind m = onnx_Constant \<longrightarrow> (\<exists>val. attr_t m ''value'' = Inr val)"
    unfolding tensor_input_iff by blast
  from m ty have vt: "value_type g v = Inr (TensorType st sz)"
    by (simp add: value_type_def)
  show ?thesis
  proof (cases "kind m = onnx_Gather")
    case True
    with assms(2) m obtain v0 m0 where "input0 m = Inr v0" "producer g v0 = Inr m0"
      unfolding gather_input_iff by auto
    with True m vt show ?thesis
      by (cases st) (simp_all add: collect_input_def tensor_scalarType_def)
  next
    case ng: False
    show ?thesis
    proof (cases "kind m = onnx_Constant")
      case True
      with c obtain val where "attr_t m ''value'' = Inr val" by blast
      with True m show ?thesis by (simp add: collect_input_def)
    next
      case False
      with ng m vt show ?thesis
        by (cases st) (simp_all add: collect_input_def tensor_scalarType_def)
    qed
  qed
qed

lemma collect_inputs_total:
  "\<forall>v \<in> set vs. tensor_input g v \<and> gather_input g v \<Longrightarrow> \<exists>acc'. collect_inputs g acc vs = Inr acc'"
proof (induction vs arbitrary: acc)
  case Nil
  show ?case by simp
next
  case (Cons v vs)
  then obtain a1 where "collect_input g acc v = Inr a1"
    using collect_input_total [of g v acc] by auto
  moreover from Cons obtain a2 where "collect_inputs g a1 vs = Inr a2" by fastforce
  ultimately show ?case by simp
qed

lemma single_tensor_output_iff:
  "single_tensor_output nd \<longleftrightarrow> (\<exists>st sz. outputs nd = [TensorType st sz])"
proof -
  have a: "is_tensor ty \<longleftrightarrow> (\<exists>st sz. ty = TensorType st sz)" for ty
    by (cases ty) (simp_all add: is_tensor_def)
  show ?thesis
    by (cases "outputs nd" rule: list.exhaust [case_names Nil Cons])
      (auto simp: single_tensor_output_def a split: list.splits)
qed

lemma Infer_total:
  assumes "n < length g" and "single_tensor_output (g ! n)"
    and "\<forall>v \<in> set (inputs (g ! n)). tensor_input g v \<and> gather_input g v"
  shows "\<exists>r. InferExpectedScalarType p g n = Inr r"
proof -
  from collect_inputs_total [OF assms(3)] obtain acc where
    "collect_inputs g ([], []) (inputs (g ! n)) = Inr acc" by blast
  moreover from assms(2) obtain st sz where "outputs (g ! n) = [TensorType st sz]"
    unfolding single_tensor_output_iff by blast
  ultimately show ?thesis using assms(1)
    by (simp add: InferExpectedScalarType_def node_at_def output_type_def tensor_scalarType_def Let_def)
qed

lemma grows_refl: "grows n g g"
  by (simp add: grows_def)

lemma grows_trans:
  assumes 1: "grows n g g'" and 2: "grows n g' g''"
  shows "grows n g g''"
proof -
  have "kind (g'' ! j) = kind (g ! j) \<and> attributes (g'' ! j) = attributes (g ! j)
          \<and> length (outputs (g'' ! j)) = length (outputs (g ! j))
          \<and> (\<forall>k < length (outputs (g ! j)).
                is_tensor (outputs (g ! j) ! k) \<longrightarrow> is_tensor (outputs (g'' ! j) ! k))
          \<and> (j \<noteq> n \<longrightarrow> inputs (g'' ! j) = inputs (g ! j))"
    if j: "j < length g" for j
  proof -
    from j 1 have a: "kind (g' ! j) = kind (g ! j)" "attributes (g' ! j) = attributes (g ! j)"
      "length (outputs (g' ! j)) = length (outputs (g ! j))"
      "\<forall>k < length (outputs (g ! j)). is_tensor (outputs (g ! j) ! k) \<longrightarrow> is_tensor (outputs (g' ! j) ! k)"
      "j \<noteq> n \<longrightarrow> inputs (g' ! j) = inputs (g ! j)" and lt: "j < length g'"
      by (simp_all add: grows_def)
    from lt 2 have b: "kind (g'' ! j) = kind (g' ! j)" "attributes (g'' ! j) = attributes (g' ! j)"
      "length (outputs (g'' ! j)) = length (outputs (g' ! j))"
      "\<forall>k < length (outputs (g' ! j)). is_tensor (outputs (g' ! j) ! k) \<longrightarrow> is_tensor (outputs (g'' ! j) ! k)"
      "j \<noteq> n \<longrightarrow> inputs (g'' ! j) = inputs (g' ! j)"
      by (simp_all add: grows_def)
    from a b show ?thesis by simp
  qed
  moreover from 1 2 have "length g \<le> length g''" by (simp add: grows_def)
  ultimately show ?thesis by (simp add: grows_def)
qed

lemma store_kept_grows:
  assumes "store_kept g n g1"
  shows "grows n g g1"
proof -
  have "kind (g1 ! j) = kind (g ! j) \<and> attributes (g1 ! j) = attributes (g ! j)
          \<and> outputs (g1 ! j) = outputs (g ! j) \<and> (j \<noteq> n \<longrightarrow> inputs (g1 ! j) = inputs (g ! j))"
    if "j < length g" for j
    using store_kept_old [OF assms that] assms that by (simp add: store_kept_def)
  with store_kept_length [OF assms] show ?thesis by (simp add: grows_def)
qed

lemma output_update_grows:
  assumes "n < length g" and "outputs (g ! n) = [TensorType st sz]"
  shows "grows n g (g[n := (g ! n)\<lparr>outputs := [TensorType (Some T) sz]\<rparr>])"
  using assms by (simp add: grows_def nth_list_update is_tensor_def)

lemma tensor_input_grows:
  assumes "grows n g g'" and "tensor_input g v"
  shows "tensor_input g' v"
proof -
  from assms(2) obtain st sz where f: "fst v < length g" and s: "snd v < length (outputs (g ! fst v))"
    and ty: "outputs (g ! fst v) ! snd v = TensorType st sz"
    and c: "kind (g ! fst v) = onnx_Constant \<longrightarrow> (\<exists>val. attr_t (g ! fst v) ''value'' = Inr val)"
    unfolding tensor_input_iff producer_Inr by blast
  from f assms(1) have k: "kind (g' ! fst v) = kind (g ! fst v)"
    and a: "attributes (g' ! fst v) = attributes (g ! fst v)"
    and l: "length (outputs (g' ! fst v)) = length (outputs (g ! fst v))"
    and t: "\<forall>k < length (outputs (g ! fst v)).
                is_tensor (outputs (g ! fst v) ! k) \<longrightarrow> is_tensor (outputs (g' ! fst v) ! k)"
    and f': "fst v < length g'"
    by (simp_all add: grows_def)
  from t s ty have "is_tensor (outputs (g' ! fst v) ! snd v)" by (simp add: is_tensor_def)
  then obtain st' sz' where "outputs (g' ! fst v) ! snd v = TensorType st' sz'"
    by (cases "outputs (g' ! fst v) ! snd v") (simp_all add: is_tensor_def)
  moreover from a have "attr_t (g' ! fst v) ''value'' = attr_t (g ! fst v) ''value''"
    by (simp add: attr_t_def)
  ultimately show ?thesis
    unfolding tensor_input_iff producer_Inr using f' s l k c by auto
qed

lemma gather_input_grows:
  assumes "grows n g g'" and "gather_input g v" and "n < length g \<longrightarrow> kind (g ! n) \<noteq> onnx_Gather"
  shows "gather_input g' v"
proof -
  from assms(2) have f: "fst v < length g" and s: "snd v < length (outputs (g ! fst v))"
    and c: "kind (g ! fst v) = onnx_Gather \<longrightarrow>
          (\<exists>v0 m0. input0 (g ! fst v) = Inr v0 \<and> producer g v0 = Inr m0)"
    unfolding gather_input_iff producer_Inr by auto
  from f assms(1) have k: "kind (g' ! fst v) = kind (g ! fst v)"
    and l: "length (outputs (g' ! fst v)) = length (outputs (g ! fst v))"
    and i: "fst v \<noteq> n \<longrightarrow> inputs (g' ! fst v) = inputs (g ! fst v)"
    and f': "fst v < length g'"
    by (simp_all add: grows_def)
  have "\<exists>v0 m0. input0 (g' ! fst v) = Inr v0 \<and> producer g' v0 = Inr m0"
    if kg: "kind (g' ! fst v) = onnx_Gather"
  proof -
    from kg k assms(3) f have "fst v \<noteq> n" by auto
    with i have "input0 (g' ! fst v) = input0 (g ! fst v)" by (simp add: input0_def)
    moreover from kg k c obtain v0 m0 where v0: "input0 (g ! fst v) = Inr v0" "producer g v0 = Inr m0"
      by auto
    moreover from v0(2) assms(1) have "producer g' v0 = Inr (g' ! fst v0)"
      by (simp add: producer_Inr grows_def)
    ultimately show ?thesis by simp
  qed
  then show ?thesis
    unfolding gather_input_iff producer_Inr using f' s l by auto
qed

lemma update_input_total:
  assumes "n < length g" and "tensor_input g (inputs (g ! n) ! k)"
  shows "\<exists>s'. update_input conv code T n (g, ins) k = Inr s'"
proof -
  from assms(2) obtain m st sz where m: "producer g (inputs (g ! n) ! k) = Inr m"
    and ty: "outputs m ! snd (inputs (g ! n) ! k) = TensorType st sz"
    and c: "kind m = onnx_Constant \<longrightarrow> (\<exists>val. attr_t m ''value'' = Inr val)"
    unfolding tensor_input_iff by blast
  from m ty have vt: "value_type g (inputs (g ! n) ! k) = Inr (TensorType st sz)"
    by (simp add: value_type_def)
  show ?thesis
  proof (cases "kind m = onnx_Constant")
    case True
    with c obtain val where "attr_t m ''value'' = Inr val" by blast
    with True m vt assms(1) show ?thesis
      by (simp add: update_input_def node_at_def tensor_scalarType_def Let_def)
  next
    case False
    with m vt assms(1) show ?thesis
      by (simp add: update_input_def node_at_def tensor_scalarType_def Let_def
          CreateProfiledTensorTypeWithScalarType_def)
  qed
qed

lemma fresh_value_ok:
  assumes "fst v < length g" and "snd v = 0"
    and "(\<exists>val. g ! fst v = Constant_node val) \<or> (\<exists>src code ty. g ! fst v = Cast_node src code (TensorType (Some T) ty))"
  shows "tensor_input g v \<and> gather_input g v"
  using assms unfolding tensor_input_iff gather_input_iff producer_Inr
  by (auto simp: TensorType_create_def)

lemma cur_input_ok:
  assumes inv: "loop_inv conv code T g0 n k (g, ins)"
    and i: "i < length (inputs (g0 ! n))"
    and ok: "tensor_input g0 (inputs (g0 ! n) ! i)"
  shows "tensor_input g (inputs (g ! n) ! i)"
    and "gather_input g0 (inputs (g0 ! n) ! i) \<Longrightarrow> n < length g0 \<longrightarrow> kind (g0 ! n) \<noteq> onnx_Gather
           \<Longrightarrow> gather_input g (inputs (g ! n) ! i)"
proof -
  define v0 where "v0 = inputs (g0 ! n) ! i"
  define v where "v = inputs (g ! n) ! i"
  from inv have sk: "store_kept g0 n g" by (simp add: loop_inv_def)
  note gr = store_kept_grows [OF sk]
  from ok have old: "fst v0 < length g0"
    unfolding tensor_input_iff producer_Inr v0_def by blast
  from inv i have "input_pending conv code T g0 g v0 v"
    unfolding v0_def v_def loop_inv_def input_pending_def by (cases "i < k") auto
  with old consider
    (fresh) "fst v < length g" "snd v = 0"
      "(\<exists>val. g ! fst v = Constant_node val) \<or> (\<exists>src code ty. g ! fst v = Cast_node src code (TensorType (Some T) ty))"
    | (same) "v = v0"
    unfolding input_pending_def input_done_def rewritten_Constant_def rewritten_Cast_def
      kept_def outside_def by fastforce
  note cs = this
  show "tensor_input g (inputs (g ! n) ! i)"
  proof (rule cs)
    assume "fst v < length g" "snd v = 0"
      "(\<exists>val. g ! fst v = Constant_node val) \<or> (\<exists>src code ty. g ! fst v = Cast_node src code (TensorType (Some T) ty))"
    from fresh_value_ok [OF this] show ?thesis by (simp add: v_def)
  next
    assume "v = v0"
    with tensor_input_grows [OF gr ok] show ?thesis by (simp add: v_def v0_def)
  qed
  show "gather_input g (inputs (g ! n) ! i)"
    if gi: "gather_input g0 (inputs (g0 ! n) ! i)" and ng: "n < length g0 \<longrightarrow> kind (g0 ! n) \<noteq> onnx_Gather"
  proof (rule cs)
    assume "fst v < length g" "snd v = 0"
      "(\<exists>val. g ! fst v = Constant_node val) \<or> (\<exists>src code ty. g ! fst v = Cast_node src code (TensorType (Some T) ty))"
    from fresh_value_ok [OF this] show ?thesis by (simp add: v_def)
  next
    assume "v = v0"
    with gather_input_grows [OF gr gi ng] show ?thesis by (simp add: v_def v0_def)
  qed
qed

lemma update_inputs_total:
  assumes "loop_inv conv code T g0 n k s" and "n < length g0"
    and "N \<le> length (inputs (g0 ! n))"
    and "\<forall>v \<in> set (inputs (g0 ! n)). tensor_input g0 v"
  shows "\<exists>s'. update_inputs conv code T n s [k..<N] = Inr s'"
  using assms
proof (induction "N - k" arbitrary: k s)
  case 0
  then show ?case by simp
next
  case (Suc d)
  then have kN: "k < N" by simp
  then have up: "[k..<N] = k # [Suc k..<N]" by (simp add: upt_conv_Cons)
  obtain g ins where s: "s = (g, ins)" by (cases s)
  from kN Suc.prems(3) have k: "k < length (inputs (g0 ! n))" by simp
  with Suc.prems(4) have "tensor_input g0 (inputs (g0 ! n) ! k)" by simp
  from cur_input_ok(1) [OF Suc.prems(1) [unfolded s] k this]
  have ok: "tensor_input g (inputs (g ! n) ! k)" .
  from Suc.prems(1,2) s have "n < length g" by (simp add: loop_inv_def store_kept_def)
  from update_input_total [OF this ok] obtain s1 where
    s1: "update_input conv code T n s k = Inr s1" unfolding s by blast
  from loop_inv_step [OF Suc.prems(1) Suc.prems(2) k s1]
  have i1: "loop_inv conv code T g0 n (Suc k) s1" .
  from Suc.hyps(2) have "d = N - Suc k" by simp
  from Suc.hyps(1) [OF this i1 Suc.prems(2) Suc.prems(3) Suc.prems(4)] s1 up
  show ?case by simp
qed

lemma UpdateScalarTypeForInputs_total:
  assumes "n < length g" and "\<forall>v \<in> set (inputs (g ! n)). tensor_input g v"
  shows "\<exists>r. UpdateScalarTypeForInputs conv g n T = Inr r"
proof (cases "ScalarTypeToONNXType T < 0")
  case True
  from UpdateScalarTypeForInputs_not_supported [OF True assms(1)] show ?thesis by blast
next
  case False
  from update_inputs_total [OF loop_inv_init [OF assms(1)] assms(1) order_refl assms(2)]
  obtain s' where "update_inputs conv (ScalarTypeToONNXType T) T n (g, []) [0..<length (inputs (g ! n))] = Inr s'"
    by blast
  with False assms(1) show ?thesis
    by (simp add: UpdateScalarTypeForInputs_def node_at_def)
qed

lemma precondition_node_ok: "precondition g ns \<longleftrightarrow> (\<forall>n \<in> set ns. node_ok g n)"
  by (simp add: precondition_def node_ok_def)

lemma supported_not_Gather: "IsImplicitCastSupported k \<Longrightarrow> k \<noteq> onnx_Gather"
  by (auto simp: IsImplicitCastSupported_def standardOps_def comparisonOps_def)

lemma single_tensor_output_grows:
  assumes "grows n g g'" and "j < length g" and "single_tensor_output (g ! j)"
  shows "single_tensor_output (g' ! j)"
proof -
  from assms(3) obtain st sz where o: "outputs (g ! j) = [TensorType st sz]"
    unfolding single_tensor_output_iff by blast
  from assms(1,2) o have l: "length (outputs (g' ! j)) = 1"
    and t: "is_tensor (outputs (g' ! j) ! 0)"
    by (simp_all add: grows_def is_tensor_def)
  from l obtain ty where ty: "outputs (g' ! j) = [ty]"
    by (cases "outputs (g' ! j)") simp_all
  with t show ?thesis by (simp add: single_tensor_output_def)
qed

lemma visit_total:
  assumes "node_ok (graph s) n"
  shows "\<exists>r. visit p c s n = Inr r"
proof -
  from assms have n: "n < length (graph s)" by (simp add: node_ok_def)
  show ?thesis
  proof (cases "IsImplicitCastSupported (kind (graph s ! n))")
    case False
    with n show ?thesis by (simp add: visit_def node_at_def)
  next
    case sup: True
    with assms have out: "single_tensor_output (graph s ! n)"
      and inp: "\<forall>v \<in> set (inputs (graph s ! n)). tensor_input (graph s) v \<and> gather_input (graph s) v"
      by (simp_all add: node_ok_def)
    from Infer_total [OF n out inp] obtain e w1 where
      inf: "InferExpectedScalarType p (graph s) n = Inr (e, w1)" by force
    show ?thesis
    proof (cases e)
      case None
      with inf sup n show ?thesis by (simp add: visit_def node_at_def)
    next
      case (Some T)
      from inp have "\<forall>v \<in> set (inputs (graph s ! n)). tensor_input (graph s) v" by simp
      from UpdateScalarTypeForInputs_total [OF n this] obtain g1 ins w2 where
        u: "UpdateScalarTypeForInputs c (graph s) n T = Inr (g1, ins, w2)"
        by (metis prod_cases3)
      from UpdateScalarTypeForInputs_frame [OF u] have sk: "store_kept (graph s) n g1" by simp
      from out obtain st sz where "outputs (graph s ! n) = [TensorType st sz]"
        unfolding single_tensor_output_iff by blast
      with store_kept_old(2) [OF sk n] have o1: "outputs (g1 ! n) = [TensorType st sz]" by simp
      from n store_kept_length [OF sk] have n1: "n < length g1" by simp
      note uo = UpdateScalarTypeForOutput_single [OF n1 o1, of T]
      from inf Some sup n u uo show ?thesis
        by (simp add: visit_def node_at_def)
    qed
  qed
qed

lemma visit_grows:
  assumes "visit p c s n = Inr (ins, s')"
  shows "grows n (graph s) (graph s')"
    and "\<not> IsImplicitCastSupported (kind (graph s ! n)) \<Longrightarrow> graph s' = graph s"
proof -
  note vc = visit_cases [OF assms]
  from vc show "graph s' = graph s" if "\<not> IsImplicitCastSupported (kind (graph s ! n))"
    using that by auto
  from vc have n: "n < length (graph s)" by simp
  from vc consider
    "graph s' = graph s"
    | T g1 w2 where
      "UpdateScalarTypeForInputs c (graph s) n T = Inr (g1, ins, w2)"
      "if IsComparisonOp (kind (graph s ! n)) then graph s' = g1
                    else UpdateScalarTypeForOutput g1 n T = Inr (graph s')"
    by auto
  then show "grows n (graph s) (graph s')"
  proof cases
    case 1
    then show ?thesis by (simp add: grows_refl)
  next
    case 2
    from UpdateScalarTypeForInputs_frame [OF 2(1)] have sk: "store_kept (graph s) n g1" by simp
    note g1 = store_kept_grows [OF sk]
    show ?thesis
    proof (cases "IsComparisonOp (kind (graph s ! n))")
      case True
      with 2(2) g1 show ?thesis by simp
    next
      case False
      with 2(2) have "UpdateScalarTypeForOutput g1 n T = Inr (graph s')" by simp
      from UpdateScalarTypeForOutput_Inr [OF this] obtain st sz where
        n1: "n < length g1" and o: "outputs (g1 ! n) = [TensorType st sz]"
        and g2: "graph s' = g1[n := (g1 ! n)\<lparr>outputs := [TensorType (Some T) sz]\<rparr>]"
        by blast
      from output_update_grows [OF n1 o, of T] g2 have "grows n g1 (graph s')" by simp
      with g1 show ?thesis by (rule grows_trans)
    qed
  qed
qed

text \<open>The inputs of the visited node after the visit.\<close>

lemma visit_inputs_ok:
  assumes v: "visit p c s n = Inr (ins, s')"
    and sup: "IsImplicitCastSupported (kind (graph s ! n))"
    and inp: "\<forall>v \<in> set (inputs (graph s ! n)). tensor_input (graph s) v \<and> gather_input (graph s) v"
  shows "\<forall>v \<in> set (inputs (graph s' ! n)). tensor_input (graph s') v \<and> gather_input (graph s') v"
proof -
  note vc = visit_cases [OF v]
  from vc have n: "n < length (graph s)" by simp
  from sup have ng: "n < length (graph s) \<longrightarrow> kind (graph s ! n) \<noteq> onnx_Gather"
    by (simp add: supported_not_Gather)
  from vc consider
    "graph s' = graph s"
    | T g1 w2 where
      "UpdateScalarTypeForInputs c (graph s) n T = Inr (g1, ins, w2)"
      "if IsComparisonOp (kind (graph s ! n)) then graph s' = g1
                    else UpdateScalarTypeForOutput g1 n T = Inr (graph s')"
    by auto
  then show ?thesis
  proof cases
    case 1
    with inp show ?thesis by simp
  next
    case 2
    from UpdateScalarTypeForInputs_frame [OF 2(1)] have sk: "store_kept (graph s) n g1" by simp
    from sk have leq: "length (inputs (g1 ! n)) = length (inputs (graph s ! n))"
      by (simp add: store_kept_def)
    from n store_kept_length [OF sk] have n1: "n < length g1" by simp
    have ok1: "tensor_input g1 (inputs (g1 ! n) ! i) \<and> gather_input g1 (inputs (g1 ! n) ! i)"
      if i: "i < length (inputs (graph s ! n))" for i
    proof (cases "ScalarTypeToONNXType T < 0")
      case True
      from UpdateScalarTypeForInputs_not_supported [OF True n, of c] 2(1) have "g1 = graph s" by simp
      with inp i show ?thesis by simp
    next
      case False
      then have "0 \<le> ScalarTypeToONNXType T" by simp
      from UpdateScalarTypeForInputs_inv [OF 2(1) this]
      have li: "loop_inv c (ScalarTypeToONNXType T) T (graph s) n (length (inputs (graph s ! n))) (g1, ins)"
        by simp
      from inp i have a: "tensor_input (graph s) (inputs (graph s ! n) ! i)"
        and b: "gather_input (graph s) (inputs (graph s ! n) ! i)" by simp_all
      from cur_input_ok(1) [OF li i a] cur_input_ok(2) [OF li i a b ng] show ?thesis by simp
    qed
    have g12: "grows n g1 (graph s')" and i12: "inputs (graph s' ! n) = inputs (g1 ! n)"
    proof -
      show "grows n g1 (graph s')"
      proof (cases "IsComparisonOp (kind (graph s ! n))")
        case True
        with 2(2) show ?thesis by (simp add: grows_refl)
      next
        case False
        with 2(2) have "UpdateScalarTypeForOutput g1 n T = Inr (graph s')" by simp
        from UpdateScalarTypeForOutput_Inr [OF this] obtain st sz where
          o: "outputs (g1 ! n) = [TensorType st sz]"
          and g2: "graph s' = g1[n := (g1 ! n)\<lparr>outputs := [TensorType (Some T) sz]\<rparr>]"
          by blast
        from output_update_grows [OF n1 o, of T] g2 show ?thesis by simp
      qed
      show "inputs (graph s' ! n) = inputs (g1 ! n)"
      proof (cases "IsComparisonOp (kind (graph s ! n))")
        case True
        with 2(2) show ?thesis by simp
      next
        case False
        with 2(2) have "UpdateScalarTypeForOutput g1 n T = Inr (graph s')" by simp
        from UpdateScalarTypeForOutput_Inr [OF this] n1 show ?thesis by auto
      qed
    qed
    from store_kept_old(1) [OF sk n] sup have ng1: "n < length g1 \<longrightarrow> kind (g1 ! n) \<noteq> onnx_Gather"
      by (simp add: supported_not_Gather)
    show ?thesis
    proof
      fix v assume "v \<in> set (inputs (graph s' ! n))"
      with i12 leq obtain i where i: "i < length (inputs (graph s ! n))" and v: "v = inputs (g1 ! n) ! i"
        by (metis in_set_conv_nth)
      from ok1 [OF i] v tensor_input_grows [OF g12] gather_input_grows [OF g12 _ ng1]
      show "tensor_input (graph s') v \<and> gather_input (graph s') v" by simp
    qed
  qed
qed

lemma visit_node_ok:
  assumes v: "visit p c s n = Inr (ins, s')" and ok: "node_ok (graph s) m"
  shows "node_ok (graph s') m"
proof (cases "IsImplicitCastSupported (kind (graph s ! n))")
  case False
  with visit_grows(2) [OF v] ok show ?thesis by simp
next
  case sup: True
  note gr = visit_grows(1) [OF v]
  from visit_cases [OF v] have n: "n < length (graph s)" by simp
  from ok have m: "m < length (graph s)" by (simp add: node_ok_def)
  with gr have m': "m < length (graph s')" and km: "kind (graph s' ! m) = kind (graph s ! m)"
    by (simp_all add: grows_def)
  from sup have ng: "n < length (graph s) \<longrightarrow> kind (graph s ! n) \<noteq> onnx_Gather"
    by (simp add: supported_not_Gather)
  show ?thesis
  proof (cases "IsImplicitCastSupported (kind (graph s ! m))")
    case False
    with m' km show ?thesis by (simp add: node_ok_def)
  next
    case supm: True
    with ok have out: "single_tensor_output (graph s ! m)"
      and inp: "\<forall>v \<in> set (inputs (graph s ! m)). tensor_input (graph s) v \<and> gather_input (graph s) v"
      by (simp_all add: node_ok_def)
    note out' = single_tensor_output_grows [OF gr m out]
    have "\<forall>v \<in> set (inputs (graph s' ! m)). tensor_input (graph s') v \<and> gather_input (graph s') v"
    proof (cases "m = n")
      case True
      with visit_inputs_ok [OF v sup] inp show ?thesis by simp
    next
      case False
      with gr m have "inputs (graph s' ! m) = inputs (graph s ! m)" by (simp add: grows_def)
      with inp tensor_input_grows [OF gr] gather_input_grows [OF gr _ ng] show ?thesis by simp
    qed
    with m' out' show ?thesis by (simp add: node_ok_def)
  qed
qed

lemma visit_all_total:
  "\<forall>n \<in> set ns. node_ok (graph s) n \<Longrightarrow> \<exists>s'. visit_all p c ns s = Inr s'"
proof (induction ns arbitrary: s)
  case Nil
  show ?case by simp
next
  case (Cons n ns)
  then have "node_ok (graph s) n" by simp
  from visit_total [OF this] obtain ins s1 where v: "visit p c s n = Inr (ins, s1)" by force
  from Cons.prems visit_node_ok [OF v] have "\<forall>m \<in> set ns. node_ok (graph s1) m" by simp
  from Cons.IH [OF this] v show ?case by simp
qed

lemma state_of_Inr: "state_of r = Inr s \<Longrightarrow> \<exists>b. r = Inr (b, s)"
  by (cases r) (auto simp: state_of_def)

lemma pass_total_under_precondition:
  assumes "precondition g (visit_order block)"
  shows "\<exists>block' s'. ScalarTypeAnalysisForONNX promoteTypes conv dce block g = Inr (block', s')"
proof -
  from assms have "\<forall>n \<in> set (visit_order block). node_ok (graph \<lparr>graph = g, warnings = [], inferred = []\<rparr>) n"
    by (simp add: precondition_node_ok)
  from visit_all_total [OF this] obtain s' where
    "visit_all promoteTypes conv (visit_order block) \<lparr>graph = g, warnings = [], inferred = []\<rparr> = Inr s'"
    by blast
  with state_of_driver(1) [of promoteTypes conv dce block "\<lparr>graph = g, warnings = [], inferred = []\<rparr>"]
  have "state_of (ScalarTypeAnalysisForONNX promoteTypes conv dce block g) = Inr s'"
    by (simp add: ScalarTypeAnalysisForONNX_def del: ImplicitCastForONNX.simps)
  from state_of_Inr [OF this] show ?thesis by blast
qed

lemma precondition_needed:
  "ScalarTypeAnalysisForONNX promote_rank conv_keep (sweep [1]) [BlockNode 1 []] untyped_graph
     = Inl NullTensorType"
  "ScalarTypeAnalysisForONNX promote_rank conv_keep (sweep [2]) [BlockNode 1 [], BlockNode 2 []]
     no_literal_graph = Inl MissingAttribute"
  by code_simp+

text \<open>
  C10, as amended: the pass fails on some graphs (on an input of a whitelisted node
  without TensorType annotation, on a constant input without literal), and it is total
  under this precondition: every visited node is a node of the graph, and every visited
  node whose kind is in the whitelist has exactly one output, annotated with a
  TensorType, and inputs that are values of the graph annotated with a TensorType, whose
  producer has a tensor-valued attribute \<open>value\<close> when it is a constant and a first operand
  when it is a Gather.
\<close>

theorem pass_total:
  "(precondition g (visit_order block)
      \<longrightarrow> (\<exists>block' s'. ScalarTypeAnalysisForONNX promoteTypes conv dce block g = Inr (block', s')))
   \<and> ScalarTypeAnalysisForONNX promote_rank conv_keep (sweep [1]) [BlockNode 1 []] untyped_graph
        = Inl NullTensorType
   \<and> ScalarTypeAnalysisForONNX promote_rank conv_keep (sweep [2]) [BlockNode 1 [], BlockNode 2 []]
        no_literal_graph = Inl MissingAttribute"
  using pass_total_under_precondition [of g block promoteTypes conv dce] precondition_needed
  by blast

text \<open>
  The precondition of C10 as it is stated, without the condition on the producers that
  are Gather nodes, does not make the pass total: \<^verbatim>\<open>input(0)\<close> of a Gather without
  operands fails.
\<close>

theorem pass_total_counterexample:
  "claimed_precondition gather0_graph (visit_order [BlockNode 1 [], BlockNode 2 []])
   \<and> ScalarTypeAnalysisForONNX promote_rank conv_keep (sweep [2]) [BlockNode 1 [], BlockNode 2 []]
       gather0_graph = Inl InputOutOfRange"
  by code_simp

theorem pass_total_witness:
  "precondition example_graph (visit_order example_block)
   \<and> (\<exists>block' s'. ScalarTypeAnalysisForONNX promote_rank conv_keep (sweep [7, 8, 9])
                     example_block example_graph = Inr (block', s'))"
proof -
  have h: "precondition example_graph (visit_order example_block)" by code_simp
  from pass_total [of example_graph example_block promote_rank conv_keep "sweep [7, 8, 9]"] h
  show ?thesis by blast
qed

subsection \<open>The inputs after the pass\<close>



lemma topological_cong:
  "\<forall>n \<in> set ns. inputs (g' ! n) = inputs (g ! n) \<Longrightarrow> topological g' ns = topological g ns"
  by (induction ns) simp_all

lemma visit_others:
  assumes "visit p c s n = Inr (ins, s')" and "j < length (graph s)" and "j \<noteq> n"
  shows "graph s' ! j = graph s ! j"
proof -
  note vc = visit_cases [OF assms(1)]
  from vc consider
    "graph s' = graph s"
    | T g1 w2 where
      "UpdateScalarTypeForInputs c (graph s) n T = Inr (g1, ins, w2)"
      "if IsComparisonOp (kind (graph s ! n)) then graph s' = g1
                    else UpdateScalarTypeForOutput g1 n T = Inr (graph s')"
    by auto
  then show ?thesis
  proof cases
    case 1
    then show ?thesis by simp
  next
    case 2
    from UpdateScalarTypeForInputs_frame [OF 2(1)] have sk: "store_kept (graph s) n g1" by simp
    with assms(2,3) have a: "g1 ! j = graph s ! j" by (simp add: store_kept_def)
    show ?thesis
    proof (cases "IsComparisonOp (kind (graph s ! n))")
      case True
      with 2(2) a show ?thesis by simp
    next
      case False
      with 2(2) have "UpdateScalarTypeForOutput g1 n T = Inr (graph s')" by simp
      from UpdateScalarTypeForOutput_Inr [OF this] assms(3) a show ?thesis by auto
    qed
  qed
qed

lemma visit_length:
  assumes "visit p c s n = Inr (ins, s')"
  shows "length (graph s) \<le> length (graph s')"
  using visit_grows(1) [OF assms] by (simp add: grows_def)

lemma collect_inputs_defined:
  "collect_inputs g acc vs = Inr acc' \<Longrightarrow> \<forall>v \<in> set vs. fst v < length g"
proof (induction vs arbitrary: acc)
  case Nil
  show ?case by simp
next
  case (Cons v vs)
  from Cons.prems obtain a1 where a1: "collect_input g acc v = Inr a1"
    and rest: "collect_inputs g a1 vs = Inr acc'"
    by (auto simp: bindE_eq_Inr)
  from a1 obtain m where "producer g v = Inr m"
    unfolding collect_input_def bindE_eq_Inr by blast
  then have "fst v < length g" by (simp add: producer_Inr)
  with Cons.IH [OF rest] show ?case by simp
qed

lemma Infer_inputs_defined:
  assumes "InferExpectedScalarType p g n = Inr r"
  shows "\<forall>v \<in> set (inputs (g ! n)). fst v < length g"
proof -
  from assms obtain nd acc where nd: "node_at g n = Inr nd"
    and acc: "collect_inputs g ([], []) (inputs nd) = Inr acc"
    unfolding InferExpectedScalarType_def bindE_eq_Inr by blast
  from nd have "nd = g ! n" by (simp add: node_at_def split: if_splits)
  with collect_inputs_defined [OF acc] show ?thesis by simp
qed

lemma inputs_after:
  assumes u: "UpdateScalarTypeForInputs conv g n T = Inr (g1, ins, ws)"
    and d: "\<forall>v \<in> set (inputs (g ! n)). fst v < length g"
    and v: "v \<in> set (inputs (g1 ! n))"
  shows "fst v < length g1 \<and> (v \<in> set (inputs (g ! n)) \<or> length g \<le> fst v)"
proof (cases "ScalarTypeToONNXType T < 0")
  case True
  from UpdateScalarTypeForInputs_frame [OF u] have n: "n < length g" by simp
  from UpdateScalarTypeForInputs_not_supported [OF True n, of conv] u have "g1 = g" by simp
  with d v show ?thesis by simp
next
  case False
  then have "0 \<le> ScalarTypeToONNXType T" by simp
  from UpdateScalarTypeForInputs_inv [OF u this]
  have li: "loop_inv conv (ScalarTypeToONNXType T) T g n (length (inputs (g ! n))) (g1, ins)"
    by simp
  then have sk: "store_kept g n g1" by (simp add: loop_inv_def)
  then have leq: "length (inputs (g1 ! n)) = length (inputs (g ! n))" by (simp add: store_kept_def)
  from v leq obtain i where i: "i < length (inputs (g ! n))" and vi: "v = inputs (g1 ! n) ! i"
    by (metis in_set_conv_nth)
  from d i have old: "fst (inputs (g ! n) ! i) < length g" by simp
  from loop_inv_done [OF li i] vi
  have "input_done conv (ScalarTypeToONNXType T) T g g1 (inputs (g ! n) ! i) v" by simp
  with old consider "length g \<le> fst v" "fst v < length g1" | "v = inputs (g ! n) ! i"
    unfolding input_done_def rewritten_Constant_def rewritten_Cast_def kept_def outside_def
    by fastforce
  then show ?thesis
  proof cases
    case 1
    then show ?thesis by simp
  next
    case 2
    with i old store_kept_length [OF sk] show ?thesis by auto
  qed
qed


lemma value_type_same:
  assumes "fst v < length g" and "g' ! fst v = g ! fst v" and "length g \<le> length g'"
  shows "value_type g' v = value_type g v"
  using assms by (simp add: value_type_unfold)








subsection \<open>A second run of the pass\<close>

lemma update_input_quiet:
  assumes "n < length g" and "quiet_input g T (inputs (g ! n) ! k)"
  shows "update_input conv code T n (g, ins) k = Inr (g, ins)"
proof -
  from assms(2) obtain m st sz where "producer g (inputs (g ! n) ! k) = Inr m"
    "kind m \<noteq> onnx_Constant" "value_type g (inputs (g ! n) ! k) = Inr (TensorType st sz)"
    "st = None \<or> st = Some T"
    unfolding quiet_input_def by blast
  with assms(1) show ?thesis
    by (auto simp: update_input_def node_at_def tensor_scalarType_def Let_def)
qed

lemma update_inputs_quiet:
  assumes "n < length g" and "\<forall>k \<in> set ks. quiet_input g T (inputs (g ! n) ! k)"
  shows "update_inputs conv code T n (g, ins) ks = Inr (g, ins)"
  using assms(2)
proof (induction ks)
  case Nil
  show ?case by simp
next
  case (Cons k ks)
  then have "quiet_input g T (inputs (g ! n) ! k)" by simp
  from update_input_quiet [OF assms(1) this] Cons show ?case by simp
qed

lemma UpdateScalarTypeForInputs_quiet:
  assumes "n < length g"
    and "ScalarTypeToONNXType T < 0 \<or> (\<forall>v \<in> set (inputs (g ! n)). quiet_input g T v)"
  shows "\<exists>ws. UpdateScalarTypeForInputs conv g n T = Inr (g, [], ws)"
proof (cases "ScalarTypeToONNXType T < 0")
  case True
  from UpdateScalarTypeForInputs_not_supported [OF True assms(1)] show ?thesis by blast
next
  case False
  with assms(2) have "\<forall>k \<in> set [0..<length (inputs (g ! n))]. quiet_input g T (inputs (g ! n) ! k)"
    by simp
  from update_inputs_quiet [OF assms(1) this] False assms(1) show ?thesis
    by (simp add: UpdateScalarTypeForInputs_def node_at_def)
qed

lemma UpdateScalarTypeForOutput_quiet:
  assumes "n < length g" and "outputs (g ! n) = [TensorType (Some T) sz]"
  shows "UpdateScalarTypeForOutput g n T = Inr g"
proof -
  from assms(2) have "(g ! n)\<lparr>outputs := [TensorType (Some T) sz]\<rparr> = g ! n"
    by (metis Node.surjective Node.update_convs(3))
  with UpdateScalarTypeForOutput_single [OF assms, of T] show ?thesis by simp
qed

lemma quiet_visit:
  assumes "quiet p (graph s) N"
  shows "\<exists>s'. visit p c s N = Inr ([], s') \<and> graph s' = graph s"
proof -
  from assms have n: "N < length (graph s)" by (simp add: quiet_def)
  show ?thesis
  proof (cases "IsImplicitCastSupported (kind (graph s ! N))")
    case False
    with n show ?thesis by (simp add: visit_def node_at_def)
  next
    case sup: True
    with assms obtain e w where inf: "InferExpectedScalarType p (graph s) N = Inr (e, w)"
      and q: "\<forall>T. e = Some T \<longrightarrow>
                 (ScalarTypeToONNXType T < 0 \<or> (\<forall>v \<in> set (inputs (graph s ! N)). quiet_input (graph s) T v))
                 \<and> (IsComparisonOp (kind (graph s ! N)) \<or> (\<exists>sz. outputs (graph s ! N) = [TensorType (Some T) sz]))"
      unfolding quiet_def by blast
    show ?thesis
    proof (cases e)
      case None
      with inf sup n show ?thesis by (simp add: visit_def node_at_def)
    next
      case (Some T)
      with q have a: "ScalarTypeToONNXType T < 0 \<or> (\<forall>v \<in> set (inputs (graph s ! N)). quiet_input (graph s) T v)"
        and b: "IsComparisonOp (kind (graph s ! N)) \<or> (\<exists>sz. outputs (graph s ! N) = [TensorType (Some T) sz])"
        by simp_all
      from UpdateScalarTypeForInputs_quiet [OF n a] obtain ws where
        u: "UpdateScalarTypeForInputs c (graph s) N T = Inr (graph s, [], ws)" by blast
      show ?thesis
      proof (cases "IsComparisonOp (kind (graph s ! N))")
        case True
        with inf Some sup n u show ?thesis by (simp add: visit_def node_at_def)
      next
        case False
        with b obtain sz where "outputs (graph s ! N) = [TensorType (Some T) sz]" by blast
        from UpdateScalarTypeForOutput_quiet [OF n this] False inf Some sup n u
        show ?thesis by (simp add: visit_def node_at_def)
      qed
    qed
  qed
qed

text \<open>Inference reads the node, the producers of its inputs and the kinds of the producers of their first operands.\<close>

lemma collect_input_local:
  assumes gr: "grows M g g'" and same: "g' ! fst v = g ! fst v"
    and c: "collect_input g acc v = Inr acc'"
  shows "collect_input g' acc v = Inr acc'"
proof -
  from c obtain m where m: "producer g v = Inr m"
    unfolding collect_input_def bindE_eq_Inr by blast
  then have f: "fst v < length g" and s: "snd v < length (outputs (g ! fst v))"
    and meq: "m = g ! fst v"
    by (simp_all add: producer_Inr)
  from gr have len: "length g \<le> length g'" by (simp add: grows_def)
  from f s meq same len have m': "producer g' v = Inr m" by (simp add: producer_Inr)
  from f same len have vt: "value_type g' v = value_type g v" by (rule value_type_same)
  have chk: "(if kind m = onnx_Gather
            then bindE (input0 m) (\<lambda>v0. bindE (producer g' v0) (\<lambda>m0. Inr (kind m0 = onnx_Shape)))
            else Inr False)
          = (if kind m = onnx_Gather
            then bindE (input0 m) (\<lambda>v0. bindE (producer g v0) (\<lambda>m0. Inr (kind m0 = onnx_Shape)))
            else Inr False)"
  proof (cases "kind m = onnx_Gather")
    case False
    then show ?thesis by simp
  next
    case True
    from c m obtain sg where "(if kind m = onnx_Gather
            then bindE (input0 m) (\<lambda>v0. bindE (producer g v0) (\<lambda>m0. Inr (kind m0 = onnx_Shape)))
            else Inr False) = Inr sg"
      unfolding collect_input_def bindE_eq_Inr by auto
    with True have "bindE (input0 m) (\<lambda>v0. bindE (producer g v0) (\<lambda>m0. Inr (kind m0 = onnx_Shape)))
        = Inr sg" by simp
    then obtain v0 m0 where v0: "input0 m = Inr v0" and m0: "producer g v0 = Inr m0"
      unfolding bindE_eq_Inr by blast
    from m0 have f0: "fst v0 < length g" and s0: "snd v0 < length (outputs (g ! fst v0))"
      and m0eq: "m0 = g ! fst v0"
      by (simp_all add: producer_Inr)
    from gr f0 have "kind (g' ! fst v0) = kind (g ! fst v0)"
      "length (outputs (g' ! fst v0)) = length (outputs (g ! fst v0))"
      by (simp_all add: grows_def)
    with f0 s0 len have "producer g' v0 = Inr (g' ! fst v0)" "kind (g' ! fst v0) = kind m0"
      using m0eq by (simp_all add: producer_Inr)
    with True v0 m0 show ?thesis by simp
  qed
  have "collect_input g' acc v = collect_input g acc v"
    by (simp only: collect_input_def m m' vt bindE_Inr chk)
  with c show ?thesis by simp
qed

lemma collect_inputs_local:
  assumes gr: "grows M g g'"
  shows "\<forall>v \<in> set vs. g' ! fst v = g ! fst v \<Longrightarrow> collect_inputs g acc vs = Inr acc'
           \<Longrightarrow> collect_inputs g' acc vs = Inr acc'"
proof (induction vs arbitrary: acc)
  case Nil
  then show ?case by simp
next
  case (Cons v vs)
  from Cons.prems(2) obtain a1 where a1: "collect_input g acc v = Inr a1"
    and rest: "collect_inputs g a1 vs = Inr acc'"
    by (auto simp: bindE_eq_Inr)
  from Cons.prems(1) have "g' ! fst v = g ! fst v" by simp
  from collect_input_local [OF gr this a1] Cons.IH [OF _ rest] Cons.prems(1)
  show ?case by simp
qed

lemma Infer_local:
  assumes gr: "grows M g g'" and N: "N < length g" and same: "g' ! N = g ! N"
    and inp: "\<forall>v \<in> set (inputs (g ! N)). g' ! fst v = g ! fst v"
    and inf: "InferExpectedScalarType p g N = Inr r"
  shows "InferExpectedScalarType p g' N = Inr r"
proof -
  from gr N have N': "N < length g'" by (simp add: grows_def)
  from inf N obtain acc where acc: "collect_inputs g ([], []) (inputs (g ! N)) = Inr acc"
    unfolding InferExpectedScalarType_def bindE_eq_Inr by (auto simp: node_at_def)
  note acc' = collect_inputs_local [OF gr inp acc]
  from inf show ?thesis
    unfolding InferExpectedScalarType_def using N N' same acc acc'
    by (simp add: node_at_def)
qed

lemma quiet_input_local:
  assumes "quiet_input g T v" and "g' ! fst v = g ! fst v" and "length g \<le> length g'"
  shows "quiet_input g' T v"
proof -
  from assms(1) obtain m st sz where m: "producer g v = Inr m" and k: "kind m \<noteq> onnx_Constant"
    and ty: "value_type g v = Inr (TensorType st sz)" and st: "st = None \<or> st = Some T"
    unfolding quiet_input_def by blast
  from m have f: "fst v < length g" by (simp add: producer_Inr)
  from m assms(2,3) have "producer g' v = Inr m" by (simp add: producer_Inr)
  moreover from value_type_same [OF f assms(2,3)] ty have "value_type g' v = Inr (TensorType st sz)"
    by simp
  ultimately show ?thesis using k st unfolding quiet_input_def by blast
qed

lemma quiet_preserved:
  assumes v: "visit p c s M = Inr (ins, s')" and NM: "N \<noteq> M"
    and inp: "\<forall>u \<in> set (inputs (graph s ! N)). fst u \<noteq> M \<and> fst u < length (graph s)"
    and q: "quiet p (graph s) N"
  shows "quiet p (graph s') N"
proof -
  from q have N: "N < length (graph s)" by (simp add: quiet_def)
  note gr = visit_grows(1) [OF v]
  note len = visit_length [OF v]
  from visit_others [OF v N NM] have same: "graph s' ! N = graph s ! N" .
  have sameu: "\<forall>u \<in> set (inputs (graph s ! N)). graph s' ! fst u = graph s ! fst u"
    using inp visit_others [OF v] by simp
  show ?thesis
  proof (cases "IsImplicitCastSupported (kind (graph s ! N))")
    case False
    with N len same show ?thesis by (simp add: quiet_def)
  next
    case True
    with q obtain e w where inf: "InferExpectedScalarType p (graph s) N = Inr (e, w)"
      and qq: "\<forall>T. e = Some T \<longrightarrow>
                 (ScalarTypeToONNXType T < 0 \<or> (\<forall>v \<in> set (inputs (graph s ! N)). quiet_input (graph s) T v))
                 \<and> (IsComparisonOp (kind (graph s ! N)) \<or> (\<exists>sz. outputs (graph s ! N) = [TensorType (Some T) sz]))"
      unfolding quiet_def by blast
    note inf' = Infer_local [OF gr N same sameu inf]
    have "(ScalarTypeToONNXType T < 0 \<or> (\<forall>v \<in> set (inputs (graph s' ! N)). quiet_input (graph s') T v))
           \<and> (IsComparisonOp (kind (graph s' ! N)) \<or> (\<exists>sz. outputs (graph s' ! N) = [TensorType (Some T) sz]))"
      if "e = Some T" for T
    proof -
      from qq that have a: "ScalarTypeToONNXType T < 0 \<or> (\<forall>v \<in> set (inputs (graph s ! N)). quiet_input (graph s) T v)"
        and b: "IsComparisonOp (kind (graph s ! N)) \<or> (\<exists>sz. outputs (graph s ! N) = [TensorType (Some T) sz])"
        by simp_all
      from a sameu len quiet_input_local [of "graph s" T _ "graph s'"]
      have "ScalarTypeToONNXType T < 0 \<or> (\<forall>v \<in> set (inputs (graph s ! N)). quiet_input (graph s') T v)"
        by blast
      with b same show ?thesis by simp
    qed
    with inf' N len show ?thesis unfolding quiet_def by auto
  qed
qed

lemma foldl_upper:
  assumes "promotion_laws p"
  shows "y \<in> set (x # xs) \<Longrightarrow> p y (foldl p x xs) = foldl p x xs"
proof (induction xs arbitrary: x y)
  case Nil
  with assms show ?case unfolding promotion_laws_def by simp
next
  case (Cons a xs)
  from assms have idem: "\<And>a. p a a = a" and comm: "\<And>a b. p a b = p b a"
    and assoc: "\<And>a b c. p (p a b) c = p a (p b c)"
    unfolding promotion_laws_def by blast+
  have up: "p (p x a) (foldl p (p x a) xs) = foldl p (p x a) xs"
    by (rule Cons.IH) simp
  have le: "p z (foldl p (p x a) xs) = foldl p (p x a) xs" if "p z (p x a) = p x a" for z
  proof -
    have "p z (foldl p (p x a) xs) = p z (p (p x a) (foldl p (p x a) xs))" using up by simp
    also have "\<dots> = p (p z (p x a)) (foldl p (p x a) xs)" by (simp add: assoc)
    also have "\<dots> = foldl p (p x a) xs" using that up by simp
    finally show ?thesis .
  qed
  from Cons.prems consider "y = x" | "y = a" | "y \<in> set xs" by auto
  then show ?case
  proof cases
    case 1
    have "p x (p x a) = p x a" using assoc [of x x a, symmetric] idem by simp
    with le 1 show ?thesis by simp
  next
    case 2
    have "p a (p x a) = p x a" using comm [of x a] assoc [of a a x, symmetric] idem by simp
    with le 2 show ?thesis by simp
  next
    case 3
    then have "p y (foldl p (p x a) xs) = foldl p (p x a) xs"
      by (intro Cons.IH) simp
    then show ?thesis by simp
  qed
qed

lemma foldl_bounded:
  assumes "promotion_laws p"
  shows "\<forall>y \<in> set (x # xs). p y T = T \<Longrightarrow> p (foldl p x xs) T = T"
proof (induction xs arbitrary: x)
  case Nil
  then show ?case by simp
next
  case (Cons a xs)
  from assms have assoc: "\<And>a b c. p (p a b) c = p a (p b c)"
    unfolding promotion_laws_def by blast
  from Cons.prems have "p (p x a) T = T" by (simp add: assoc)
  with Cons.prems Cons.IH [of "p x a"] show ?case by simp
qed

lemma promote_settled:
  assumes laws: "promotion_laws p"
    and T: "PromoteScalarTypes p L = Some T"
    and sub: "\<forall>x \<in> set L'. x = T \<or> x \<in> set L"
    and mem: "T \<in> set L'"
  shows "PromoteScalarTypes p L' = Some T"
proof -
  from laws have idem: "\<And>a. p a a = a" and comm: "\<And>a b. p a b = p b a"
    unfolding promotion_laws_def by blast+
  from T obtain x xs where L: "L = x # xs" and TL: "T = foldl p x xs"
    by (cases L) auto
  from mem obtain x' xs' where L': "L' = x' # xs'" by (cases L') auto
  have le: "p y T = T" if "y \<in> set L'" for y
  proof -
    from sub that have "y = T \<or> y \<in> set L" by simp
    then show ?thesis
    proof
      assume "y = T" with idem show ?thesis by simp
    next
      assume "y \<in> set L"
      with foldl_upper [OF laws, of y x xs] L TL show ?thesis by simp
    qed
  qed
  then have "p (foldl p x' xs') T = T"
    using foldl_bounded [OF laws, of x' xs' T] L' by simp
  moreover from foldl_upper [OF laws, of T x' xs'] mem L'
  have "p T (foldl p x' xs') = foldl p x' xs'" by simp
  ultimately have "foldl p x' xs' = T" using comm [of T "foldl p x' xs'"] by simp
  with L' show ?thesis by simp
qed

text \<open>The contribution of an input to the buckets does not depend on the buckets.\<close>

lemma collect_input_contribution:
  assumes "collect_input g acc v = Inr acc'"
  shows "collect_input g acc2 v
           = Inr (fst acc2 @ tensor_contribution g v, snd acc2 @ scalar_contribution g v)"
proof -
  from assms obtain m sg where m: "producer g v = Inr m"
    and chk: "(if kind m = onnx_Gather
            then bindE (input0 m) (\<lambda>v0. bindE (producer g v0) (\<lambda>m0. Inr (kind m0 = onnx_Shape)))
            else Inr False) = Inr sg"
    and r: "(if sg then Inr (fst acc, snd acc @ [kLong])
       else if kind m = onnx_Constant then
         bindE (attr_t m ''value'') (\<lambda>val. Inr (fst acc, snd acc @ [scalar_type val]))
       else
         bindE (value_type g v) (\<lambda>ty.
         bindE (tensor_scalarType ty) (\<lambda>st.
           case st of
             Some st' \<Rightarrow> Inr (fst acc @ [st'], snd acc)
           | None \<Rightarrow> Inr acc))) = Inr acc'"
    unfolding collect_input_def bindE_eq_Inr by blast
  have "\<exists>b. collect_input g acc2 v = Inr b"
  proof (cases sg)
    case True
    with m chk show ?thesis by (simp add: collect_input_def)
  next
    case nsg: False
    show ?thesis
    proof (cases "kind m = onnx_Constant")
      case True
      with r nsg obtain val where "attr_t m ''value'' = Inr val"
        by (auto simp: bindE_eq_Inr)
      with True nsg m chk show ?thesis by (simp add: collect_input_def)
    next
      case False
      with r nsg have "bindE (value_type g v) (\<lambda>ty.
         bindE (tensor_scalarType ty) (\<lambda>st.
           case st of
             Some st' \<Rightarrow> Inr (fst acc @ [st'], snd acc)
           | None \<Rightarrow> Inr acc)) = Inr acc'"
        by simp
      then obtain ty st where "value_type g v = Inr ty" "tensor_scalarType ty = Inr st"
        unfolding bindE_eq_Inr by blast
      with False nsg m chk show ?thesis by (cases st) (simp_all add: collect_input_def)
    qed
  qed
  then obtain b where b: "collect_input g acc2 v = Inr b" by blast
  from collect_input_spec [OF b] b show ?thesis by simp
qed

lemma settled_scalars_subset:
  "list_all2 (settled_input g g' T) vs0 vs' \<Longrightarrow>
     set (typesFromScalars g' vs') \<subseteq> set (typesFromScalars g vs0)"
  by (induction rule: list_all2_induct) (auto simp: typesFromScalars_def settled_input_def)

lemma settled_tensors_subset:
  "list_all2 (settled_input g g' T) vs0 vs' \<Longrightarrow> set (typesFromTensors g' vs') \<subseteq> {T}"
  by (induction rule: list_all2_induct) (auto simp: typesFromTensors_def settled_input_def)

lemma settled_same:
  "list_all2 (settled_input g g' T) vs0 vs' \<Longrightarrow> T \<notin> set (typesFromTensors g' vs') \<Longrightarrow>
     typesFromTensors g' vs' = typesFromTensors g vs0
     \<and> typesFromScalars g' vs' = typesFromScalars g vs0"
  by (induction rule: list_all2_induct)
    (auto simp: typesFromTensors_def typesFromScalars_def settled_input_def)

lemma settled_all_scalars:
  "list_all2 (settled_input g g' T) vs0 vs' \<Longrightarrow>
     length (typesFromScalars g' vs') = length vs' \<Longrightarrow>
     typesFromScalars g' vs' = typesFromScalars g vs0
     \<and> length (typesFromScalars g vs0) = length vs0"
proof (induction rule: list_all2_induct)
  case Nil
  show ?case by (simp add: typesFromScalars_def)
next
  case (Cons v0 vs0 v' vs')
  have len: "length (typesFromScalars g' (v' # vs'))
          = length (scalar_contribution g' v') + length (typesFromScalars g' vs')"
    by (simp add: typesFromScalars_def)
  have len0: "length (typesFromScalars g (v0 # vs0))
          = length (scalar_contribution g v0) + length (typesFromScalars g vs0)"
    by (simp add: typesFromScalars_def)
  from len Cons.prems scalar_contribution_le [of g' v'] typesFromScalars_le [of g' vs']
  have one: "length (scalar_contribution g' v') = 1" and rest: "length (typesFromScalars g' vs') = length vs'"
    by simp_all
  from one Cons.hyps(1) have k: "v' = v0" "scalar_contribution g' v0 = scalar_contribution g v0"
    by (auto simp: settled_input_def)
  from Cons.IH [OF rest] k one len0 show ?case
    by (simp add: typesFromScalars_def)
qed

lemma Infer_eq:
  assumes "N < length g" and "collect_inputs g ([], []) (inputs (g ! N)) = Inr acc"
    and "outputs (g ! N) = [TensorType ost sz]"
  shows "InferExpectedScalarType p g N
           = Inr (infer_result p (kind (g ! N)) (length (inputs (g ! N))) acc ost)"
  using assms
  by (simp add: InferExpectedScalarType_def node_at_def output_type_def tensor_scalarType_def
      Let_def infer_result_def)

lemma Infer_parts:
  assumes "InferExpectedScalarType p g N = Inr r"
  shows "\<exists>acc ost sz. N < length g \<and> collect_inputs g ([], []) (inputs (g ! N)) = Inr acc
           \<and> outputs (g ! N) = [TensorType ost sz]
           \<and> r = infer_result p (kind (g ! N)) (length (inputs (g ! N))) acc ost"
proof -
  from assms obtain nd acc oty ost where nd: "node_at g N = Inr nd"
    and acc: "collect_inputs g ([], []) (inputs nd) = Inr acc"
    and oty: "output_type nd = Inr oty" and ost: "tensor_scalarType oty = Inr ost"
    unfolding InferExpectedScalarType_def bindE_eq_Inr by blast
  from nd have N: "N < length g" and ndeq: "nd = g ! N"
    by (simp_all add: node_at_def split: if_splits)
  from oty ost obtain sz where out: "outputs nd = [TensorType ost sz]"
    by (auto simp: output_type_def tensor_scalarType_def split: list.splits TypePtr.splits)
  from Infer_eq [OF N acc [unfolded ndeq] out [unfolded ndeq], of p] assms
  have "r = infer_result p (kind (g ! N)) (length (inputs (g ! N))) acc ost" by simp
  with N acc out ndeq show ?thesis by blast
qed

lemma collect_inputs_each:
  "collect_inputs g acc vs = Inr acc' \<Longrightarrow> v \<in> set vs \<Longrightarrow> \<exists>a b. collect_input g a v = Inr b"
proof (induction vs arbitrary: acc)
  case Nil
  then show ?case by simp
next
  case (Cons u vs)
  from Cons.prems(1) obtain a1 where a1: "collect_input g acc u = Inr a1"
    and rest: "collect_inputs g a1 vs = Inr acc'"
    by (auto simp: bindE_eq_Inr)
  show ?case
  proof (cases "v = u")
    case True
    with a1 show ?thesis by blast
  next
    case False
    with Cons.prems(2) have "v \<in> set vs" by simp
    from Cons.IH [OF rest this] show ?thesis .
  qed
qed

lemma collect_inputs_all:
  "\<forall>v \<in> set vs. \<exists>a b. collect_input g a v = Inr b \<Longrightarrow> \<exists>acc'. collect_inputs g acc vs = Inr acc'"
proof (induction vs arbitrary: acc)
  case Nil
  show ?case by simp
next
  case (Cons u vs)
  then obtain a b where "collect_input g a u = Inr b" by auto
  from collect_input_contribution [OF this, of acc] Cons show ?case by simp
qed

lemma cast_contribution:
  assumes "fst v < length g" and "snd v = 0"
    and "g ! fst v = Cast_node src code (TensorType (Some T) sz)"
  shows "tensor_contribution g v = [T]" and "scalar_contribution g v = []"
    and "quiet_input g T v" and "collect_input g acc v = Inr (fst acc @ [T], snd acc)"
proof -
  from assms have m: "producer g v = Inr (Cast_node src code (TensorType (Some T) sz))"
    by (simp add: producer_Inr)
  from assms have vt: "value_type g v = Inr (TensorType (Some T) sz)"
    by (simp add: value_type_Inr)
  from m have "\<not> is_shape_gather g v" "\<not> is_constant g v"
    by (simp_all add: is_shape_gather_def is_constant_def)
  with vt show "tensor_contribution g v = [T]" and "scalar_contribution g v = []"
    by (simp_all add: tensor_contribution_def scalar_contribution_def classified_scalar_def
        annotated_def)
  from m vt show "quiet_input g T v" unfolding quiet_input_def by force
  from m vt show "collect_input g acc v = Inr (fst acc @ [T], snd acc)"
    by (simp add: collect_input_def tensor_scalarType_def)
qed

lemma kept_contribution:
  assumes gr: "grows M g g'" and same: "g' ! fst v = g ! fst v"
    and c: "collect_input g a v = Inr b"
  shows "tensor_contribution g' v = tensor_contribution g v"
    and "scalar_contribution g' v = scalar_contribution g v"
proof -
  from collect_input_contribution [OF c, of "([], [])"]
  have 1: "collect_input g ([], []) v = Inr (tensor_contribution g v, scalar_contribution g v)"
    by simp
  from collect_input_local [OF gr same 1]
  have 2: "collect_input g' ([], []) v = Inr (tensor_contribution g v, scalar_contribution g v)" .
  from collect_input_contribution [OF 2, of "([], [])"] 2
  show "tensor_contribution g' v = tensor_contribution g v"
    and "scalar_contribution g' v = scalar_contribution g v"
    by simp_all
qed

lemma quiet_tensor_contribution:
  assumes "quiet_input g T v"
  shows "set (tensor_contribution g v) \<subseteq> {T}"
proof -
  from assms obtain st sz where "value_type g v = Inr (TensorType st sz)" "st = None \<or> st = Some T"
    unfolding quiet_input_def by blast
  then show ?thesis by (auto simp: tensor_contribution_def annotated_def)
qed

text \<open>After its visit a node is quiet, when none of its inputs was produced by a constant or by the node itself.\<close>

lemma visit_quiet:
  assumes v: "visit p c s N = Inr (ins, s')"
    and laws: "promotion_laws p"
    and noconst: "\<forall>u \<in> set (inputs (graph s ! N)). \<not> is_constant (graph s) u"
    and noself: "\<forall>u \<in> set (inputs (graph s ! N)). fst u \<noteq> N"
  shows "quiet p (graph s') N"
proof -
  define g where "g = graph s"
  define g' where "g' = graph s'"
  note vc = visit_cases [OF v, folded g_def g'_def]
  from vc have N: "N < length g" by simp
  note gr = visit_grows(1) [OF v, folded g_def g'_def]
  from gr have len: "length g \<le> length g'" by (simp add: grows_def)
  with N have N': "N < length g'" by simp
  from gr N have kN: "kind (g' ! N) = kind (g ! N)" by (simp add: grows_def)
  have others: "g' ! j = g ! j" if "j < length g" "j \<noteq> N" for j
    using visit_others [OF v, folded g_def g'_def] that by simp
  from vc consider
    (skip) "\<not> IsImplicitCastSupported (kind (g ! N))" "g' = g"
    | (unknown) w1 where "InferExpectedScalarType p g N = Inr (None, w1)" "g' = g"
    | (known) T w1 g1 w2 where "IsImplicitCastSupported (kind (g ! N))"
      "InferExpectedScalarType p g N = Inr (Some T, w1)"
      "UpdateScalarTypeForInputs c g N T = Inr (g1, ins, w2)"
      "if IsComparisonOp (kind (g ! N)) then g' = g1
                    else UpdateScalarTypeForOutput g1 N T = Inr g'"
    unfolding g_def g'_def by auto
  then have "quiet p g' N"
  proof cases
    case skip
    with N show ?thesis by (simp add: quiet_def)
  next
    case unknown
    with N show ?thesis by (simp add: quiet_def)
  next
    case known
    note inf = known(2) and u = known(3)
    from Infer_parts [OF inf] obtain acc ost sz where
      acc: "collect_inputs g ([], []) (inputs (g ! N)) = Inr acc"
      and out: "outputs (g ! N) = [TensorType ost sz]"
      and res: "(Some T, w1) = infer_result p (kind (g ! N)) (length (inputs (g ! N))) acc ost"
      by blast
    note d = Infer_inputs_defined [OF inf]
    from UpdateScalarTypeForInputs_frame [OF u] have sk: "store_kept g N g1" by simp
    from N store_kept_length [OF sk] have N1: "N < length g1" by simp
    from store_kept_old(2) [OF sk N] out have out1: "outputs (g1 ! N) = [TensorType ost sz]" by simp
    \<comment> \<open>the graph after the visit\<close>
    have shape: "g' = (if IsComparisonOp (kind (g ! N)) then g1
                       else g1[N := (g1 ! N)\<lparr>outputs := [TensorType (Some T) sz]\<rparr>])"
    proof (cases "IsComparisonOp (kind (g ! N))")
      case True
      with known(4) show ?thesis by simp
    next
      case False
      with known(4) UpdateScalarTypeForOutput_single [OF N1 out1, of T] show ?thesis by simp
    qed
    from shape N1 have inp': "inputs (g' ! N) = inputs (g1 ! N)" by simp
    from shape N1 out1 have out': "outputs (g' ! N)
        = [TensorType (if IsComparisonOp (kind (g ! N)) then ost else Some T) sz]"
      by simp
    have fresh_same: "g' ! j = g1 ! j" if "j \<noteq> N" for j
      using shape that by simp
    have sameu: "g' ! fst u = g ! fst u" if "u \<in> set (inputs (g ! N))" for u
      using others [of "fst u"] d noself that unfolding g_def by blast
    \<comment> \<open>the inputs after the visit\<close>
    have pos: "list_all2 (settled_input g g' T) (inputs (g ! N)) (inputs (g' ! N))
        \<and> (\<forall>v' \<in> set (inputs (g' ! N)). \<exists>a b. collect_input g' a v' = Inr b)
        \<and> (ScalarTypeToONNXType T < 0 \<or> (\<forall>v' \<in> set (inputs (g' ! N)). quiet_input g' T v'))"
      if code: "0 \<le> ScalarTypeToONNXType T"
    proof -
      from UpdateScalarTypeForInputs_inv [OF u code]
      have li: "loop_inv c (ScalarTypeToONNXType T) T g N (length (inputs (g ! N))) (g1, ins)"
        by simp
      from sk have leq: "length (inputs (g1 ! N)) = length (inputs (g ! N))"
        by (simp add: store_kept_def)
      have each: "settled_input g g' T (inputs (g ! N) ! i) (inputs (g1 ! N) ! i)
          \<and> (\<exists>a b. collect_input g' a (inputs (g1 ! N) ! i) = Inr b)
          \<and> quiet_input g' T (inputs (g1 ! N) ! i)"
        if i: "i < length (inputs (g ! N))" for i
      proof -
        define v0 where "v0 = inputs (g ! N) ! i"
        define v' where "v' = inputs (g1 ! N) ! i"
        from i have mem: "v0 \<in> set (inputs (g ! N))" by (simp add: v0_def)
        with d noconst have old: "fst v0 < length g" and nc: "\<not> is_constant g v0"
          by (simp_all add: g_def)
        from collect_inputs_each [OF acc mem] obtain a b where cb: "collect_input g a v0 = Inr b"
          by blast
        from loop_inv_done [OF li i]
        have "input_done c (ScalarTypeToONNXType T) T g g1 v0 v'" by (simp add: v0_def v'_def)
        with old nc consider
          (kept) "kept T g v0 v'"
          | (cast) "rewritten_Cast (ScalarTypeToONNXType T) T g g1 v0 v'"
          unfolding input_done_def rewritten_Constant_def outside_def is_constant_def by auto
        then have "settled_input g g' T v0 v' \<and> (\<exists>a b. collect_input g' a v' = Inr b)
          \<and> quiet_input g' T v'"
        proof cases
          case kept
          then have eq: "v' = v0" and q: "quiet_input g T v0"
            unfolding kept_def quiet_input_def by blast+
          note su = sameu [OF mem]
          note kc = kept_contribution [OF gr su cb]
          from quiet_input_local [OF q su len] have q': "quiet_input g' T v0" .
          from collect_input_local [OF gr su cb] have "\<exists>a b. collect_input g' a v0 = Inr b" by blast
          with eq kc q' quiet_tensor_contribution [OF q] show ?thesis
            by (simp add: settled_input_def)
        next
          case cast
          then obtain sz' where f: "length g \<le> fst v'" "fst v' < length g1" "snd v' = 0"
            and nd: "g1 ! fst v' = Cast_node v0 (ScalarTypeToONNXType T) (TensorType (Some T) sz')"
            unfolding rewritten_Cast_def by blast
          from f N have "fst v' \<noteq> N" by simp
          from fresh_same [OF this] nd
          have nd': "g' ! fst v' = Cast_node v0 (ScalarTypeToONNXType T) (TensorType (Some T) sz')"
            by simp
          from f shape have f': "fst v' < length g'" by simp
          note cc = cast_contribution [OF f' f(3) nd']
          from cc(4) [of "([], [])"] have "\<exists>a b. collect_input g' a v' = Inr b" by blast
          with cc(1,2,3) show ?thesis by (simp add: settled_input_def)
        qed
        then show ?thesis by (simp add: v0_def v'_def)
      qed
      have 1: "list_all2 (settled_input g g' T) (inputs (g ! N)) (inputs (g' ! N))"
        unfolding inp' list_all2_conv_all_nth using leq each by simp
      have 2: "(\<exists>a b. collect_input g' a v' = Inr b) \<and> quiet_input g' T v'"
        if "v' \<in> set (inputs (g' ! N))" for v'
      proof -
        from that inp' leq obtain i where "i < length (inputs (g ! N))" "v' = inputs (g1 ! N) ! i"
          by (metis in_set_conv_nth)
        with each show ?thesis by simp
      qed
      from 1 2 show ?thesis by blast
    qed
    \<comment> \<open>inference after the visit\<close>
    have "\<exists>w'. InferExpectedScalarType p g' N = Inr (Some T, w')"
    proof (cases "0 \<le> ScalarTypeToONNXType T")
      case False
      \<comment> \<open>no code: the inputs are as they were\<close>
      then have neg: "ScalarTypeToONNXType T < 0" by simp
      from UpdateScalarTypeForInputs_not_supported [OF neg N, of c] u have g1: "g1 = g" by simp
      with inp' have inp: "inputs (g' ! N) = inputs (g ! N)" by simp
      have "\<forall>u \<in> set (inputs (g ! N)). g' ! fst u = g ! fst u" using sameu by simp
      from collect_inputs_local [OF gr this acc]
      have acc': "collect_inputs g' ([], []) (inputs (g' ! N)) = Inr acc" by (simp add: inp)
      from Infer_eq [OF N' acc' out', of p] kN inp
      have r': "InferExpectedScalarType p g' N
           = Inr (infer_result p (kind (g ! N)) (length (inputs (g ! N))) acc
                    (if IsComparisonOp (kind (g ! N)) then ost else Some T))"
        by simp
      show ?thesis
      proof (cases "IsComparisonOp (kind (g ! N))")
        case True
        with r' res show ?thesis by (simp add: infer_result_def)
      next
        case nc: False
        show ?thesis
        proof (cases "length (snd acc) = length (inputs (g ! N))")
          case True
          with nc r' res show ?thesis by (simp add: infer_result_def)
        next
          case False
          with nc r' show ?thesis by (simp add: infer_result_def)
        qed
      qed
    next
      case code: True
      note p1 = pos [OF code]
      from p1 have la: "list_all2 (settled_input g g' T) (inputs (g ! N)) (inputs (g' ! N))"
        and ok: "\<forall>v' \<in> set (inputs (g' ! N)). \<exists>a b. collect_input g' a v' = Inr b"
        by simp_all
      from la have leq: "length (inputs (g' ! N)) = length (inputs (g ! N))"
        by (simp add: list_all2_lengthD)
      from collect_inputs_all [OF ok] obtain acc' where
        acc': "collect_inputs g' ([], []) (inputs (g' ! N)) = Inr acc'" by blast
      from collect_inputs_spec [OF acc] have
        a: "fst acc = typesFromTensors g (inputs (g ! N))" "snd acc = typesFromScalars g (inputs (g ! N))"
        by simp_all
      from collect_inputs_spec [OF acc'] have
        a': "fst acc' = typesFromTensors g' (inputs (g' ! N))"
          "snd acc' = typesFromScalars g' (inputs (g' ! N))"
        by simp_all
      from Infer_eq [OF N' acc' out', of p] kN leq
      have r': "InferExpectedScalarType p g' N
           = Inr (infer_result p (kind (g ! N)) (length (inputs (g ! N))) acc'
                    (if IsComparisonOp (kind (g ! N)) then ost else Some T))"
        by simp
      show ?thesis
      proof (cases "IsComparisonOp (kind (g ! N))")
        case True
        with res have T: "PromoteScalarTypes p (snd acc @ fst acc) = Some T"
          by (simp add: infer_result_def)
        have "PromoteScalarTypes p (snd acc' @ fst acc') = Some T"
        proof (cases "T \<in> set (fst acc')")
          case True
          have "\<forall>x \<in> set (snd acc' @ fst acc'). x = T \<or> x \<in> set (snd acc @ fst acc)"
            using settled_scalars_subset [OF la] settled_tensors_subset [OF la] a a' by auto
          from promote_settled [OF laws T this] True show ?thesis by simp
        next
          case False
          with settled_same [OF la] a a' have "fst acc' = fst acc" "snd acc' = snd acc" by simp_all
          with T show ?thesis by simp
        qed
        with True r' show ?thesis by (simp add: infer_result_def)
      next
        case nc: False
        show ?thesis
        proof (cases "length (snd acc') = length (inputs (g ! N))")
          case True
          with settled_all_scalars [OF la] a a' leq
          have "snd acc' = snd acc" "length (snd acc) = length (inputs (g ! N))" by simp_all
          with nc r' res show ?thesis by (simp add: infer_result_def)
        next
          case False
          with nc r' show ?thesis by (simp add: infer_result_def)
        qed
      qed
    qed
    then obtain w' where inf': "InferExpectedScalarType p g' N = Inr (Some T, w')" by blast
    have q1: "ScalarTypeToONNXType T < 0 \<or> (\<forall>v \<in> set (inputs (g' ! N)). quiet_input g' T v)"
      using pos by (cases "0 \<le> ScalarTypeToONNXType T") auto
    have q2: "IsComparisonOp (kind (g' ! N)) \<or> (\<exists>sz. outputs (g' ! N) = [TensorType (Some T) sz])"
      using out' kN by simp
    from N' inf' q1 q2 show ?thesis unfolding quiet_def by simp
  qed
  then show ?thesis by (simp add: g'_def)
qed

lemma visit_inputs_after:
  assumes v: "visit p c s n = Inr (ins, s')" and m: "u \<in> set (inputs (graph s' ! n))"
  shows "u \<in> set (inputs (graph s ! n)) \<or> length (graph s) \<le> fst u"
proof -
  note vc = visit_cases [OF v]
  from vc have n: "n < length (graph s)" by simp
  from vc consider
    "graph s' = graph s"
    | T w1 g1 w2 where "InferExpectedScalarType p (graph s) n = Inr (Some T, w1)"
      "UpdateScalarTypeForInputs c (graph s) n T = Inr (g1, ins, w2)"
      "if IsComparisonOp (kind (graph s ! n)) then graph s' = g1
                    else UpdateScalarTypeForOutput g1 n T = Inr (graph s')"
    by auto
  then show ?thesis
  proof cases
    case 1
    with m show ?thesis by simp
  next
    case 2
    from UpdateScalarTypeForInputs_frame [OF 2(2)] n have n1: "n < length g1"
      by (simp add: store_kept_def)
    have "inputs (graph s' ! n) = inputs (g1 ! n)"
    proof (cases "IsComparisonOp (kind (graph s ! n))")
      case True
      with 2(3) show ?thesis by simp
    next
      case False
      with 2(3) have "UpdateScalarTypeForOutput g1 n T = Inr (graph s')" by simp
      from UpdateScalarTypeForOutput_Inr [OF this] n1 show ?thesis by auto
    qed
    with m have "u \<in> set (inputs (g1 ! n))" by simp
    from inputs_after [OF 2(2) Infer_inputs_defined [OF 2(1)] this] show ?thesis by simp
  qed
qed

lemma visit_fresh:
  assumes v: "visit p c s n = Inr (ins, s')"
  shows "ins = [length (graph s)..<length (graph s')]"
    and "length (graph s) \<le> j \<Longrightarrow> j < length (graph s')
           \<Longrightarrow> \<not> IsImplicitCastSupported (kind (graph s' ! j))"
proof -
  note vc = visit_cases [OF v]
  from vc have n: "n < length (graph s)" by simp
  from vc consider
    (same) "graph s' = graph s" "ins = []"
    | (known) T g1 w2 where
      "UpdateScalarTypeForInputs c (graph s) n T = Inr (g1, ins, w2)"
      "if IsComparisonOp (kind (graph s ! n)) then graph s' = g1
                    else UpdateScalarTypeForOutput g1 n T = Inr (graph s')"
    by auto
  then have "ins = [length (graph s)..<length (graph s')]
     \<and> (length (graph s) \<le> j \<longrightarrow> j < length (graph s')
           \<longrightarrow> \<not> IsImplicitCastSupported (kind (graph s' ! j)))"
  proof cases
    case same
    then show ?thesis by simp
  next
    case known
    from UpdateScalarTypeForInputs_frame [OF known(1)]
    have fr: "fresh_nodes (ScalarTypeToONNXType T) T (graph s) g1"
      and ins: "ins = [length (graph s)..<length g1]" by simp_all
    have eq: "length (graph s') = length g1 \<and> (\<forall>i. i \<noteq> n \<longrightarrow> graph s' ! i = g1 ! i)"
    proof (cases "IsComparisonOp (kind (graph s ! n))")
      case True
      with known(2) show ?thesis by simp
    next
      case False
      with known(2) have "UpdateScalarTypeForOutput g1 n T = Inr (graph s')" by simp
      from UpdateScalarTypeForOutput_Inr [OF this] show ?thesis by auto
    qed
    have "\<not> IsImplicitCastSupported (kind (graph s' ! j))"
      if j: "length (graph s) \<le> j" "j < length (graph s')"
    proof -
      from j n eq have "graph s' ! j = g1 ! j" "j < length g1" by simp_all
      with fr j(1) have "kind (graph s' ! j) = onnx_Constant \<or> kind (graph s' ! j) = onnx_Cast"
        unfolding fresh_nodes_def by (metis Constant_node_sel(1) Cast_node_sel(1))
      then show ?thesis
        by (auto simp: IsImplicitCastSupported_def IsStandardOp_def IsComparisonOp_def
            standardOps_def comparisonOps_def)
    qed
    with ins eq show ?thesis by simp
  qed
  then show "ins = [length (graph s)..<length (graph s')]"
    and "length (graph s) \<le> j \<Longrightarrow> j < length (graph s')
           \<Longrightarrow> \<not> IsImplicitCastSupported (kind (graph s' ! j))"
    by simp_all
qed

lemma quiet_unsupported:
  "N < length g \<Longrightarrow> \<not> IsImplicitCastSupported (kind (g ! N)) \<Longrightarrow> quiet p g N"
  by (simp add: quiet_def)

lemma quiet_kept:
  assumes v: "visit p c s M = Inr (ins, s')" and NM: "N \<noteq> M"
    and inp: "\<forall>u \<in> set (inputs (graph s ! N)). fst u \<noteq> M"
    and q: "quiet p (graph s) N"
  shows "quiet p (graph s') N"
proof (cases "IsImplicitCastSupported (kind (graph s ! N))")
  case False
  from q have N: "N < length (graph s)" by (simp add: quiet_def)
  from visit_others [OF v N NM] False visit_length [OF v] N show ?thesis
    by (simp add: quiet_def)
next
  case True
  with q obtain r where "InferExpectedScalarType p (graph s) N = Inr r"
    unfolding quiet_def by auto
  from Infer_inputs_defined [OF this] inp
  have "\<forall>u \<in> set (inputs (graph s ! N)). fst u \<noteq> M \<and> fst u < length (graph s)" by simp
  from quiet_preserved [OF v NM this q] show ?thesis .
qed

lemma run_inv_step:
  assumes inv: "run_inv p L s D (M # rest)" and v: "visit p c s M = Inr (ins, s1)"
    and laws: "promotion_laws p"
  shows "run_inv p L s1 (insert M D) rest"
proof -
  from inv have d: "distinct (M # rest)" and dis: "D \<inter> set (M # rest) = {}"
    and L: "L \<le> length (graph s)" and ids: "\<forall>m \<in> set (M # rest). m < L"
    and topo: "topological (graph s) (M # rest)"
    and src: "no_constant_inputs (graph s) (M # rest)"
    and vis: "\<forall>m \<in> D. quiet p (graph s) m
         \<and> (\<forall>u \<in> set (inputs (graph s ! m)). fst u \<notin> set (M # rest))"
    and new: "\<forall>j. L \<le> j \<and> j < length (graph s) \<longrightarrow> \<not> IsImplicitCastSupported (kind (graph s ! j))"
    by (simp_all add: run_inv_def)
  note len = visit_length [OF v]
  note gr = visit_grows(1) [OF v]
  from ids L have M: "M < length (graph s)" by simp
  have same: "graph s1 ! m = graph s ! m" if "m \<in> set rest" for m
  proof -
    from that d ids L have "m \<noteq> M" "m < length (graph s)" by auto
    from visit_others [OF v this(2) this(1)] show ?thesis .
  qed
  have kinds: "kind (graph s1 ! j) = kind (graph s ! j)" if "j < length (graph s)" for j
    using gr that by (simp add: grows_def)
  from d have 1: "distinct rest" by simp
  from d dis have 2: "insert M D \<inter> set rest = {}" by auto
  from L len have 3: "L \<le> length (graph s1)" by simp
  from ids have 4: "\<forall>m \<in> set rest. m < L" by simp
  from topo have "topological (graph s) rest" by simp
  with topological_cong [of rest "graph s1" "graph s"] same
  have 5: "topological (graph s1) rest" by simp
  have 6: "no_constant_inputs (graph s1) rest"
    unfolding no_constant_inputs_def
  proof (intro ballI impI)
    fix n u assume n: "n \<in> set rest"
      and k: "IsImplicitCastSupported (kind (graph s1 ! n))"
      and u: "u \<in> set (inputs (graph s1 ! n))"
    from same [OF n] k u have k0: "IsImplicitCastSupported (kind (graph s ! n))"
      and u0: "u \<in> set (inputs (graph s ! n))" by simp_all
    with src n have a: "fst u \<noteq> n" "fst u < length (graph s)"
      "kind (graph s ! fst u) \<noteq> onnx_Constant"
      unfolding no_constant_inputs_def by auto
    with kinds [OF a(2)] len
    show "fst u \<noteq> n \<and> fst u < length (graph s1) \<and> kind (graph s1 ! fst u) \<noteq> onnx_Constant"
      by simp
  qed
  have old: "quiet p (graph s1) m \<and> (\<forall>u \<in> set (inputs (graph s1 ! m)). fst u \<notin> set rest)"
    if m: "m \<in> D" for m
  proof -
    from m dis have mM: "m \<noteq> M" by auto
    from m vis have q: "quiet p (graph s) m"
      and i: "\<forall>u \<in> set (inputs (graph s ! m)). fst u \<notin> set (M # rest)" by simp_all
    from i have "\<forall>u \<in> set (inputs (graph s ! m)). fst u \<noteq> M" by auto
    from quiet_kept [OF v mM this q] have q1: "quiet p (graph s1) m" .
    from q have "m < length (graph s)" by (simp add: quiet_def)
    from visit_others [OF v this mM] i show ?thesis using q1 by auto
  qed
  have cur: "quiet p (graph s1) M \<and> (\<forall>u \<in> set (inputs (graph s1 ! M)). fst u \<notin> set rest)"
  proof -
    have q: "quiet p (graph s1) M"
    proof (cases "IsImplicitCastSupported (kind (graph s ! M))")
      case False
      from visit_grows(2) [OF v False] M False show ?thesis by (simp add: quiet_unsupported)
    next
      case True
      with src have a: "\<forall>u \<in> set (inputs (graph s ! M)).
           fst u \<noteq> M \<and> fst u < length (graph s) \<and> kind (graph s ! fst u) \<noteq> onnx_Constant"
        unfolding no_constant_inputs_def by simp
      have nc: "\<forall>u \<in> set (inputs (graph s ! M)). \<not> is_constant (graph s) u"
        using a by (auto simp: is_constant_def producer_def node_at_def split: sum.splits if_splits)
      from a have ns: "\<forall>u \<in> set (inputs (graph s ! M)). fst u \<noteq> M" by simp
      from visit_quiet [OF v laws nc ns] show ?thesis .
    qed
    have "fst u \<notin> set rest" if "u \<in> set (inputs (graph s1 ! M))" for u
    proof -
      from visit_inputs_after [OF v that]
      show ?thesis
      proof
        assume "u \<in> set (inputs (graph s ! M))"
        with topo show ?thesis by simp
      next
        assume "length (graph s) \<le> fst u"
        with L ids show ?thesis by auto
      qed
    qed
    with q show ?thesis by simp
  qed
  from old cur have 7: "\<forall>m \<in> insert M D. quiet p (graph s1) m
         \<and> (\<forall>u \<in> set (inputs (graph s1 ! m)). fst u \<notin> set rest)" by blast
  have 8: "\<forall>j. L \<le> j \<and> j < length (graph s1) \<longrightarrow> \<not> IsImplicitCastSupported (kind (graph s1 ! j))"
  proof (intro allI impI)
    fix j assume j: "L \<le> j \<and> j < length (graph s1)"
    show "\<not> IsImplicitCastSupported (kind (graph s1 ! j))"
    proof (cases "j < length (graph s)")
      case True
      with new j kinds [OF True] show ?thesis by simp
    next
      case False
      with j visit_fresh(2) [OF v, of j] show ?thesis by simp
    qed
  qed
  from 1 2 3 4 5 6 7 8 show ?thesis unfolding run_inv_def by blast
qed

lemma run_inv_visit_all:
  "visit_all p c ns s = Inr s' \<Longrightarrow> promotion_laws p \<Longrightarrow> run_inv p L s D ns
     \<Longrightarrow> run_inv p L s' (D \<union> set ns) []"
proof (induction ns arbitrary: s D)
  case Nil
  then show ?case by simp
next
  case (Cons n ns)
  from Cons.prems(1) obtain ins s1 where v: "visit p c s n = Inr (ins, s1)"
    and r: "visit_all p c ns s1 = Inr s'"
    by (auto simp: bindE_eq_Inr)
  from Cons.IH [OF r Cons.prems(2) run_inv_step [OF Cons.prems(3) v Cons.prems(2)]]
  show ?case by simp
qed

text \<open>After a run every node it visited and every node it created is quiet.\<close>

lemma quiet_after_run:
  assumes run: "visit_all p c ns \<lparr>graph = g, warnings = [], inferred = []\<rparr> = Inr s1"
    and laws: "promotion_laws p" and wf: "well_formed g ns" and src: "no_constant_inputs g ns"
  shows "\<forall>j. j \<in> set ns \<or> (length g \<le> j \<and> j < length (graph s1)) \<longrightarrow> quiet p (graph s1) j"
proof -
  have "\<forall>j. length g \<le> j \<and> j < length g \<longrightarrow> \<not> IsImplicitCastSupported (kind (g ! j))"
    by (intro allI impI) linarith
  with wf src have "run_inv p (length g) \<lparr>graph = g, warnings = [], inferred = []\<rparr> {} ns"
    by (simp add: run_inv_def well_formed_def)
  from run_inv_visit_all [OF run laws this]
  have "run_inv p (length g) s1 (set ns) []" by simp
  then show ?thesis by (auto simp: run_inv_def quiet_unsupported)
qed

lemma visit_order_append: "visit_order (xs @ ys) = visit_order xs @ visit_order ys"
proof (induction xs)
  case Nil
  show ?case by simp
next
  case (Cons b bs)
  then show ?case by (cases b) simp
qed

lemma visit_order_inserted: "visit_order (map (\<lambda>i. BlockNode i []) ins) = ins"
  by (induction ins) simp_all

lemma driver_order:
  "only_removes d \<longrightarrow> (\<forall>b' s'. ImplicitCastForONNX p c d block s = Inr (b', s') \<longrightarrow>
     length (graph s) \<le> length (graph s')
     \<and> set (visit_order b') \<subseteq> set (visit_order block) \<union> {length (graph s)..<length (graph s')})"
  "only_removes d \<longrightarrow> (\<forall>b' s'. visit_nodes p c d block s = Inr (b', s') \<longrightarrow>
     length (graph s) \<le> length (graph s')
     \<and> set (visit_order b') \<subseteq> set (visit_order block) \<union> {length (graph s)..<length (graph s')})"
  "only_removes d \<longrightarrow> (\<forall>bs' s'. visit_blocks p c d subs s = Inr (bs', s') \<longrightarrow>
     length (graph s) \<le> length (graph s')
     \<and> set (visit_order_blocks bs') \<subseteq> set (visit_order_blocks subs) \<union> {length (graph s)..<length (graph s')})"
proof (induction p c d block s and p c d block s and p c d subs s
    rule: ImplicitCastForONNX_visit_nodes_visit_blocks.induct)
  case (1 p c d block s)
  show ?case
  proof (intro impI allI)
    fix b' s' assume d: "only_removes d" and r: "ImplicitCastForONNX p c d block s = Inr (b', s')"
    from r obtain b1 where n: "visit_nodes p c d block s = Inr (b1, s')"
      and b': "b' = d (graph s') b1"
      by (auto simp: bindE_eq_Inr)
    from 1 d n have "length (graph s) \<le> length (graph s')
     \<and> set (visit_order b1) \<subseteq> set (visit_order block) \<union> {length (graph s)..<length (graph s')}"
      by blast
    moreover from d b' have "set (visit_order b') \<subseteq> set (visit_order b1)"
      by (simp add: only_removes_def)
    ultimately show "length (graph s) \<le> length (graph s')
     \<and> set (visit_order b') \<subseteq> set (visit_order block) \<union> {length (graph s)..<length (graph s')}"
      by blast
  qed
next
  case (2 p c d s)
  show ?case by simp
next
  case (3 p c d n subs rest s)
  show ?case
  proof (intro impI allI)
    fix b' s' assume d: "only_removes d"
      and r: "visit_nodes p c d (BlockNode n subs # rest) s = Inr (b', s')"
    from r obtain subs' s1 ins s2 rest' where
      a: "visit_blocks p c d subs s = Inr (subs', s1)"
      and v: "visit p c s1 n = Inr (ins, s2)"
      and b: "visit_nodes p c d rest s2 = Inr (rest', s')"
      and b': "b' = map (\<lambda>i. BlockNode i []) ins @ BlockNode n subs' # rest'"
      by (auto simp: bindE_eq_Inr)
    from 3(1) d a have A: "length (graph s) \<le> length (graph s1)"
      "set (visit_order_blocks subs') \<subseteq> set (visit_order_blocks subs) \<union> {length (graph s)..<length (graph s1)}"
      by blast+
    have "only_removes d \<longrightarrow> (\<forall>b' s'. visit_nodes p c d rest s2 = Inr (b', s') \<longrightarrow>
       length (graph s2) \<le> length (graph s')
       \<and> set (visit_order b') \<subseteq> set (visit_order rest) \<union> {length (graph s2)..<length (graph s')})"
      by (rule 3(2))
    with d b have B: "length (graph s2) \<le> length (graph s')"
      "set (visit_order rest') \<subseteq> set (visit_order rest) \<union> {length (graph s2)..<length (graph s')}"
      by blast+
    note l = visit_length [OF v]
    note i = visit_fresh(1) [OF v]
    have vo: "visit_order b' = ins @ visit_order_blocks subs' @ n # visit_order rest'"
      by (simp add: b' visit_order_append visit_order_inserted)
    have "set (visit_order b') \<subseteq> set (visit_order (BlockNode n subs # rest))
        \<union> {length (graph s)..<length (graph s')}"
    proof
      fix x assume "x \<in> set (visit_order b')"
      with vo consider "x \<in> set ins" | "x \<in> set (visit_order_blocks subs')" | "x = n"
        | "x \<in> set (visit_order rest')" by auto
      then show "x \<in> set (visit_order (BlockNode n subs # rest))
        \<union> {length (graph s)..<length (graph s')}"
      proof cases
        case 1
        with i A(1) l B(1) show ?thesis by simp
      next
        case 2
        with \<open>set (visit_order_blocks subs') \<subseteq> set (visit_order_blocks subs) \<union> {length (graph s)..<length (graph s1)}\<close>
        have "x \<in> set (visit_order_blocks subs) \<or> (length (graph s) \<le> x \<and> x < length (graph s1))"
          by auto
        with l \<open>length (graph s2) \<le> length (graph s')\<close> show ?thesis by auto
      next
        case 3
        then show ?thesis by simp
      next
        case 4
        with \<open>set (visit_order rest') \<subseteq> set (visit_order rest) \<union> {length (graph s2)..<length (graph s')}\<close>
        have "x \<in> set (visit_order rest) \<or> (length (graph s2) \<le> x \<and> x < length (graph s'))"
          by auto
        with l \<open>length (graph s) \<le> length (graph s1)\<close> show ?thesis by auto
      qed
    qed
    with A(1) l B(1) show "length (graph s) \<le> length (graph s')
       \<and> set (visit_order b') \<subseteq> set (visit_order (BlockNode n subs # rest))
        \<union> {length (graph s)..<length (graph s')}"
      by simp
  qed
next
  case (4 p c d s)
  show ?case by simp
next
  case (5 p c d sub subs s)
  show ?case
  proof (intro impI allI)
    fix bs' s' assume d: "only_removes d"
      and r: "visit_blocks p c d (sub # subs) s = Inr (bs', s')"
    from r obtain sub' s1 subs' where
      a: "ImplicitCastForONNX p c d sub s = Inr (sub', s1)"
      and b: "visit_blocks p c d subs s1 = Inr (subs', s')"
      and bs': "bs' = sub' # subs'"
      by (auto simp: bindE_eq_Inr simp del: ImplicitCastForONNX.simps)
    from 5(1) d a have A: "length (graph s) \<le> length (graph s1)"
      "set (visit_order sub') \<subseteq> set (visit_order sub) \<union> {length (graph s)..<length (graph s1)}"
      by blast+
    have "only_removes d \<longrightarrow> (\<forall>bs' s'. visit_blocks p c d subs s1 = Inr (bs', s') \<longrightarrow>
       length (graph s1) \<le> length (graph s')
       \<and> set (visit_order_blocks bs') \<subseteq> set (visit_order_blocks subs) \<union> {length (graph s1)..<length (graph s')})"
      by (rule 5(2))
    with d b have B: "length (graph s1) \<le> length (graph s')"
      "set (visit_order_blocks subs') \<subseteq> set (visit_order_blocks subs) \<union> {length (graph s1)..<length (graph s')}"
      by blast+
    have "set (visit_order_blocks bs') \<subseteq> set (visit_order_blocks (sub # subs))
        \<union> {length (graph s)..<length (graph s')}"
    proof
      fix x assume "x \<in> set (visit_order_blocks bs')"
      with bs' consider "x \<in> set (visit_order sub')" | "x \<in> set (visit_order_blocks subs')"
        by auto
      then show "x \<in> set (visit_order_blocks (sub # subs)) \<union> {length (graph s)..<length (graph s')}"
      proof cases
        case 1
        with \<open>set (visit_order sub') \<subseteq> set (visit_order sub) \<union> {length (graph s)..<length (graph s1)}\<close>
        have "x \<in> set (visit_order sub) \<or> (length (graph s) \<le> x \<and> x < length (graph s1))" by auto
        with \<open>length (graph s1) \<le> length (graph s')\<close> show ?thesis by auto
      next
        case 2
        with \<open>set (visit_order_blocks subs') \<subseteq> set (visit_order_blocks subs) \<union> {length (graph s1)..<length (graph s')}\<close>
        have "x \<in> set (visit_order_blocks subs) \<or> (length (graph s1) \<le> x \<and> x < length (graph s'))"
          by auto
        with \<open>length (graph s) \<le> length (graph s1)\<close> show ?thesis by auto
      qed
    qed
    with A(1) B(1) show "length (graph s) \<le> length (graph s')
       \<and> set (visit_order_blocks bs') \<subseteq> set (visit_order_blocks (sub # subs))
        \<union> {length (graph s)..<length (graph s')}"
      by simp
  qed
qed

lemma driver_quiet:
  "(\<forall>n \<in> set (visit_order block). quiet p (graph s) n) \<longrightarrow>
     (\<exists>s'. ImplicitCastForONNX p c d block s = Inr (dce_block d (graph s) block, s')
        \<and> graph s' = graph s)"
  "(\<forall>n \<in> set (visit_order block). quiet p (graph s) n) \<longrightarrow>
     (\<exists>s'. visit_nodes p c d block s = Inr (dce_nodes d (graph s) block, s')
        \<and> graph s' = graph s)"
  "(\<forall>n \<in> set (visit_order_blocks subs). quiet p (graph s) n) \<longrightarrow>
     (\<exists>s'. visit_blocks p c d subs s = Inr (dce_blocks d (graph s) subs, s')
        \<and> graph s' = graph s)"
proof (induction p c d block s and p c d block s and p c d subs s
    rule: ImplicitCastForONNX_visit_nodes_visit_blocks.induct)
  case (1 p c d block s)
  show ?case
  proof
    assume "\<forall>n \<in> set (visit_order block). quiet p (graph s) n"
    with 1 obtain s' where "visit_nodes p c d block s = Inr (dce_nodes d (graph s) block, s')"
      "graph s' = graph s" by blast
    then show "\<exists>s'. ImplicitCastForONNX p c d block s = Inr (dce_block d (graph s) block, s')
        \<and> graph s' = graph s"
      by simp
  qed
next
  case (2 p c d s)
  show ?case by simp
next
  case (3 p c d n subs rest s)
  show ?case
  proof
    assume q: "\<forall>m \<in> set (visit_order (BlockNode n subs # rest)). quiet p (graph s) m"
    with 3(1) obtain s1 where a: "visit_blocks p c d subs s = Inr (dce_blocks d (graph s) subs, s1)"
      and g1: "graph s1 = graph s" by auto
    from q g1 have "quiet p (graph s1) n" by simp
    from quiet_visit [OF this, of c] obtain s2 where v: "visit p c s1 n = Inr ([], s2)"
      and g2: "graph s2 = graph s1" by blast
    have "(\<forall>m \<in> set (visit_order rest). quiet p (graph s2) m) \<longrightarrow>
     (\<exists>s'. visit_nodes p c d rest s2 = Inr (dce_nodes d (graph s2) rest, s')
        \<and> graph s' = graph s2)"
      by (rule 3(2))
    with q g1 g2 obtain s3 where b: "visit_nodes p c d rest s2 = Inr (dce_nodes d (graph s) rest, s3)"
      and g3: "graph s3 = graph s" by auto
    from a v b g3
    show "\<exists>s'. visit_nodes p c d (BlockNode n subs # rest) s
              = Inr (dce_nodes d (graph s) (BlockNode n subs # rest), s') \<and> graph s' = graph s"
      by simp
  qed
next
  case (4 p c d s)
  show ?case by simp
next
  case (5 p c d sub subs s)
  show ?case
  proof
    assume q: "\<forall>m \<in> set (visit_order_blocks (sub # subs)). quiet p (graph s) m"
    with 5(1) obtain s1 where a: "ImplicitCastForONNX p c d sub s = Inr (dce_block d (graph s) sub, s1)"
      and g1: "graph s1 = graph s" by auto
    have "(\<forall>n \<in> set (visit_order_blocks subs). quiet p (graph s1) n) \<longrightarrow>
     (\<exists>s'. visit_blocks p c d subs s1 = Inr (dce_blocks d (graph s1) subs, s')
        \<and> graph s' = graph s1)"
      by (rule 5(2))
    with q g1 obtain s2 where b: "visit_blocks p c d subs s1 = Inr (dce_blocks d (graph s) subs, s2)"
      and g2: "graph s2 = graph s" by auto
    from a b g2
    show "\<exists>s'. visit_blocks p c d (sub # subs) s
              = Inr (dce_blocks d (graph s) (sub # subs), s') \<and> graph s' = graph s"
      by (simp del: ImplicitCastForONNX.simps dce_block.simps)
  qed
qed

lemma rank_inj: "rank a = rank b \<Longrightarrow> a = b"
  by (cases a; cases b; simp add: rank_def)

lemma promotion_laws_rank: "promotion_laws promote_rank"
proof -
  have 1: "promote_rank a a = a" for a by (simp add: promote_rank_def)
  have 2: "promote_rank a b = promote_rank b a" for a b
    using rank_inj [of a b] by (auto simp: promote_rank_def)
  have 3: "promote_rank (promote_rank a b) c = promote_rank a (promote_rank b c)" for a b c
    by (auto simp: promote_rank_def)
  from 1 2 3 show ?thesis unfolding promotion_laws_def by blast
qed

lemma only_removes_sweep: "only_removes (sweep live)"
proof -
  have "set (visit_order (sweep live g b)) \<subseteq> set (visit_order b)" for g b
  proof (induction b)
    case Nil
    show ?case by simp
  next
    case (Cons x xs)
    obtain n subs where x: "x = BlockNode n subs" by (cases x)
    from Cons show ?case by (auto simp: x Let_def)
  qed
  then show ?thesis by (simp add: only_removes_def)
qed

text \<open>
  C4, as amended: when no input of a visited node whose kind is in the whitelist is
  produced by a constant (each such input is an output of another node of the graph),
  the visited nodes are distinct nodes of the graph in topological order, the promotion
  of types is idempotent, commutative and associative, and the dead code elimination
  only removes nodes, then a second run of the pass, on the block and the graph that the
  first run returned (the first run ends with the dead code elimination), succeeds and
  rewrites nothing: the graph after it is the graph after the first run, and the block
  it returns is what the dead code elimination alone makes of the block it was given.
\<close>

theorem second_run_rewrites_nothing:
  assumes laws: "promotion_laws promoteTypes" and d: "only_removes dce"
    and wf: "well_formed g (visit_order block)"
    and src: "no_constant_inputs g (visit_order block)"
    and run: "ScalarTypeAnalysisForONNX promoteTypes conv dce block g = Inr (block1, s1)"
  shows "\<exists>s2. ScalarTypeAnalysisForONNX promoteTypes conv dce block1 (graph s1)
                 = Inr (dce_block dce (graph s1) block1, s2)
              \<and> graph s2 = graph s1"
proof -
  define s0 where "s0 = \<lparr>graph = g, warnings = [], inferred = []\<rparr>"
  from run have r: "ImplicitCastForONNX promoteTypes conv dce block s0 = Inr (block1, s1)"
    by (simp add: ScalarTypeAnalysisForONNX_def s0_def)
  then have "state_of (ImplicitCastForONNX promoteTypes conv dce block s0) = Inr s1"
    by (simp del: ImplicitCastForONNX.simps)
  then have va: "visit_all promoteTypes conv (visit_order block) \<lparr>graph = g, warnings = [], inferred = []\<rparr> = Inr s1"
    by (simp add: state_of_driver s0_def del: ImplicitCastForONNX.simps)
  note q = quiet_after_run [OF va laws wf src]
  from driver_order(1) [of dce promoteTypes conv block s0] d r
  have "set (visit_order block1) \<subseteq> set (visit_order block) \<union> {length g..<length (graph s1)}"
    by (simp add: s0_def del: ImplicitCastForONNX.simps)
  with q have all: "\<forall>n \<in> set (visit_order block1). quiet promoteTypes (graph s1) n" by auto
  define t0 where "t0 = \<lparr>graph = graph s1, warnings = [], inferred = []\<rparr>"
  from all have "\<forall>n \<in> set (visit_order block1). quiet promoteTypes (graph t0) n"
    by (simp add: t0_def)
  with driver_quiet(1) [of block1 promoteTypes t0 conv dce]
  obtain s2 where "ImplicitCastForONNX promoteTypes conv dce block1 t0
      = Inr (dce_block dce (graph t0) block1, s2)" "graph s2 = graph t0"
    by blast
  then show ?thesis
    by (simp add: ScalarTypeAnalysisForONNX_def t0_def del: ImplicitCastForONNX.simps dce_block.simps)
qed

text \<open>
  C4 as it is stated fails on a graph with a constant input: the rewriter of the inputs
  replaces a constant input by a fresh constant node on every run, whether or not the
  literal has the target type already. Here \<open>Greater(x, 1.5)\<close>: the first run leaves
  \<open>Greater(Cast(x), c4)\<close> with the fresh constant \<open>c4\<close>, the dead code elimination removes
  the old constant, and the second run creates the constant \<open>c5\<close>, rewires the second
  input of \<open>Greater\<close> to it and leaves \<open>c4\<close> to the dead code elimination. The new
  constant holds the literal of the one it replaces.
\<close>

theorem second_run_rewrites_nothing_counterexample:
  "well_formed greater_graph (visit_order [BlockNode 1 [], BlockNode 2 []])
   \<and> (case ScalarTypeAnalysisForONNX promote_rank conv_keep (sweep [2])
             [BlockNode 1 [], BlockNode 2 []] greater_graph of
        Inl e \<Rightarrow> False
      | Inr r1 \<Rightarrow>
          (case ScalarTypeAnalysisForONNX promote_rank conv_keep (sweep [2]) (fst r1) (graph (snd r1)) of
             Inl e \<Rightarrow> False
           | Inr r2 \<Rightarrow>
               fst r1 = [BlockNode 3 [], BlockNode 4 [], BlockNode 2 []]
               \<and> inputs (graph (snd r1) ! 2) = [(3, 0), (4, 0)]
               \<and> kind (graph (snd r1) ! 4) = onnx_Constant
               \<and> length (graph (snd r1)) = 5
               \<and> fst r2 = [BlockNode 3 [], BlockNode 5 [], BlockNode 2 []]
               \<and> inputs (graph (snd r2) ! 2) = [(3, 0), (5, 0)]
               \<and> length (graph (snd r2)) = 6
               \<and> graph (snd r2) \<noteq> graph (snd r1)))"
  by code_simp

theorem second_run_rewrites_nothing_witness:
  "promotion_laws promote_rank \<and> only_removes (sweep [1])
   \<and> well_formed mixed_graph (visit_order [BlockNode 1 []])
   \<and> no_constant_inputs mixed_graph (visit_order [BlockNode 1 []])
   \<and> (\<exists>block1 s1 s2.
        ScalarTypeAnalysisForONNX promote_rank conv_keep (sweep [1]) [BlockNode 1 []] mixed_graph
          = Inr (block1, s1)
        \<and> block1 = [BlockNode 2 [], BlockNode 1 []]
        \<and> inputs (graph s1 ! 1) = [(0, 0), (2, 0)]
        \<and> ScalarTypeAnalysisForONNX promote_rank conv_keep (sweep [1]) block1 (graph s1)
          = Inr (dce_block (sweep [1]) (graph s1) block1, s2)
        \<and> graph s2 = graph s1)"
proof -
  have wf: "well_formed mixed_graph (visit_order [BlockNode 1 []])" by code_simp
  have src: "no_constant_inputs mixed_graph (visit_order [BlockNode 1 []])" by code_simp
  have "case ScalarTypeAnalysisForONNX promote_rank conv_keep (sweep [1]) [BlockNode 1 []] mixed_graph of
          Inr r \<Rightarrow> fst r = [BlockNode 2 [], BlockNode 1 []]
                   \<and> inputs (graph (snd r) ! 1) = [(0, 0), (2, 0)]
        | Inl e \<Rightarrow> False"
    by code_simp
  then obtain block1 s1 where
    run: "ScalarTypeAnalysisForONNX promote_rank conv_keep (sweep [1]) [BlockNode 1 []] mixed_graph
          = Inr (block1, s1)"
    and b: "block1 = [BlockNode 2 [], BlockNode 1 []]"
    and i: "inputs (graph s1 ! 1) = [(0, 0), (2, 0)]"
    by (auto split: sum.splits)
  from second_run_rewrites_nothing [OF promotion_laws_rank only_removes_sweep wf src run]
    promotion_laws_rank only_removes_sweep wf src run b i
  show ?thesis by blast
qed

end
